theory Spec2Isabelle
  imports Main "HOL-Library.AList"
begin

section \<open>Resources\<close>

text \<open>
  A \<open>vscode.Uri\<close> is an object: two of them can denote the same resource. The first
  field is the object's identity (what a JavaScript \<open>Set\<close> and \<open>===\<close> compare), the
  second is what \<open>uri.toString()\<close> returns (what a \<open>ResourceMap\<close> and line 342 of
  diagnostics.ts compare).
\<close>

datatype Uri = Uri (ident: nat) (toString: string)

text \<open>
  Modelled from the spec: the class \<open>ResourceMap\<close> (util/resourceMap) is not among the
  sources. As its uses in diagnostics.ts require, it is a dictionary from resources to
  values that keys a resource by its string form and keeps the insertion order of a
  JavaScript \<open>Map\<close>: \<open>set\<close> replaces the value of a key in place or appends a new key,
  \<open>delete\<close> removes the key. An entry holds the resource it was set with and the value.
\<close>

type_synonym 'v ResourceMap = "(string \<times> Uri \<times> 'v) list"

definition rm_get :: "'v ResourceMap \<Rightarrow> Uri \<Rightarrow> 'v option" where
  "rm_get m r = map_option snd (map_of m (toString r))"

definition rm_has :: "'v ResourceMap \<Rightarrow> Uri \<Rightarrow> bool" where
  "rm_has m r = (map_of m (toString r) \<noteq> None)"

definition rm_set :: "'v ResourceMap \<Rightarrow> Uri \<Rightarrow> 'v \<Rightarrow> 'v ResourceMap" where
  "rm_set m r v = AList.update (toString r) (r, v) m"

definition rm_delete :: "'v ResourceMap \<Rightarrow> Uri \<Rightarrow> 'v ResourceMap" where
  "rm_delete m r = AList.delete (toString r) m"

definition rm_values :: "'v ResourceMap \<Rightarrow> 'v list" where
  "rm_values m = map (\<lambda>e. snd (snd e)) m"

definition rm_size :: "'v ResourceMap \<Rightarrow> nat" where
  "rm_size m = length m"

definition rm_keyset :: "'v ResourceMap \<Rightarrow> string set" where
  "rm_keyset m = fst ` set m"

text \<open>
  A value of the map that is an object (an entry with an array or a map inside) is
  changed in place: the key and the resource stored with it stay as they were set.
\<close>

definition rm_modify :: "'v ResourceMap \<Rightarrow> Uri \<Rightarrow> ('v \<Rightarrow> 'v) \<Rightarrow> 'v ResourceMap" where
  "rm_modify m r f = map (\<lambda>(k, u, v). if k = toString r then (k, u, f v) else (k, u, v)) m"

text \<open>
  A JavaScript \<open>Set\<close>, in insertion order: \<open>add\<close> of an element that is in the set changes
  nothing. Elements are compared as \<open>===\<close> does, so two \<open>Uri\<close> objects of one resource are
  two elements.
\<close>

definition set_add :: "'a list \<Rightarrow> 'a \<Rightarrow> 'a list" where
  "set_add s x = (if x \<in> set s then s else s @ [x])"

definition new_Set :: "'a list \<Rightarrow> 'a list" where
  "new_Set xs = foldl set_add [] xs"

section \<open>Diagnostic options and severities (diagnostics.ts, lines 34-56)\<close>

datatype DiagnosticLevel = LevelIgnore | LevelWarning | LevelError

datatype DiagnosticSeverity = Error | Warning | Information | Hint

record DiagnosticOptions =
  enabled :: bool
  validateReferences :: "DiagnosticLevel option"
  validateFragmentLinks :: "DiagnosticLevel option"
  validateFileLinks :: "DiagnosticLevel option"
  validateMarkdownFileLinkFragments :: "DiagnosticLevel option"
  ignoreLinks :: "string list"

fun toSeverity :: "DiagnosticLevel option \<Rightarrow> DiagnosticSeverity option" where
  "toSeverity (Some LevelError) = Some Error"
| "toSeverity (Some LevelWarning) = Some Warning"
| "toSeverity (Some LevelIgnore) = None"
| "toSeverity None = None"

section \<open>Diagnostics (diagnostics.ts, lines 223-231 and the messages of lines 495-560)\<close>

text \<open>A range of the host: start (line, character) and end (line, character).\<close>

type_synonym Range = "(nat \<times> nat) \<times> (nat \<times> nat)"

text \<open>
  The four localized messages, each with the argument of its placeholder; for a missing
  file it is the path, whose \<open>fsPath\<close> the message shows.
\<close>

datatype Message =
    InvalidHeaderLink string
  | InvalidReferenceLink string
  | InvalidPathLink Uri
  | InvalidLinkToHeaderInOtherFile string

text \<open>
  A \<open>vscode.Diagnostic\<close>; \<open>link\<close> is \<open>Some\<close> for a \<open>LinkDoesNotExistDiagnostic\<close>, the
  subclass that remembers the link's text.
\<close>

record Diagnostic =
  range :: Range
  message :: Message
  severity :: DiagnosticSeverity
  link :: "string option"

section \<open>The reporter (diagnostics.ts, lines 233-295)\<close>

text \<open>
  The input of a tab of the host: a text editor on a resource, or any other kind of tab
  (a diff, a notebook, a webview), which \<open>instanceof vscode.TabInputText\<close> rejects.
\<close>

datatype TabInput = TabInputText Uri | TabInputOther

record Tab =
  input :: TabInput

record TabGroup =
  tabs :: "Tab list"

definition openTab :: "unit ResourceMap \<Rightarrow> Tab \<Rightarrow> unit ResourceMap" where
  "openTab openedTabDocs tab =
     (case input tab of
        TabInputText r \<Rightarrow> rm_set openedTabDocs r ()
      | TabInputOther \<Rightarrow> openedTabDocs)"

definition getAllTabResources :: "TabGroup list \<Rightarrow> unit ResourceMap" where
  "getAllTabResources tabGroups =
     foldl (\<lambda>openedTabDocs group. foldl openTab openedTabDocs (tabs group)) [] tabGroups"

text \<open>
  Modelled from the spec: the host's diagnostics collection
  (\<open>vscode.languages.createDiagnosticCollection\<close>) is not among the sources; it holds
  the diagnostics last published for each resource.
\<close>

text \<open>
  The abstract \<open>DiagnosticReporter\<close> (lines 233-258) keeps for each resource the promise
  of its last triggered recomputation; a promise is known by the number of its creation.
\<close>

record DiagnosticReporter =
  pending :: "nat ResourceMap"

record DiagnosticCollectionReporter = DiagnosticReporter +
  collection :: "Diagnostic list ResourceMap"

definition signalTriggered :: "Uri \<Rightarrow> nat \<Rightarrow> DiagnosticCollectionReporter \<Rightarrow> DiagnosticCollectionReporter" where
  "signalTriggered r recompute rep = rep\<lparr>pending := rm_set (pending rep) r recompute\<rparr>"

text \<open>
  The callback that \<open>signalTriggered\<close> hangs on the promise, run when the promise has
  settled: a resource whose entry is still this promise leaves the map.
\<close>

definition recomputeSettled :: "nat \<Rightarrow> DiagnosticCollectionReporter \<Rightarrow> DiagnosticCollectionReporter" where
  "recomputeSettled recompute rep =
     rep\<lparr>pending := filter (\<lambda>e. snd (snd e) \<noteq> recompute) (pending rep)\<rparr>"

definition reporter_set ::
  "TabGroup list \<Rightarrow> Uri \<Rightarrow> Diagnostic list \<Rightarrow> DiagnosticCollectionReporter
     \<Rightarrow> DiagnosticCollectionReporter" where
  "reporter_set tabGroups r diagnostics rep =
     (let tabs = getAllTabResources tabGroups
      in rep\<lparr>collection := rm_set (collection rep) r (if rm_has tabs r then diagnostics else [])\<rparr>)"

definition reporter_delete :: "Uri \<Rightarrow> DiagnosticCollectionReporter \<Rightarrow> DiagnosticCollectionReporter" where
  "reporter_delete r rep =
     rep\<lparr>pending := rm_delete (pending rep) r, collection := rm_delete (collection rep) r\<rparr>"

definition reporter_clear :: "DiagnosticCollectionReporter \<Rightarrow> DiagnosticCollectionReporter" where
  "reporter_clear rep = rep\<lparr>pending := [], collection := []\<rparr>"

text \<open>The resource is open as a text tab in some tab group.\<close>

definition openAsTextTab :: "TabGroup list \<Rightarrow> Uri \<Rightarrow> bool" where
  "openAsTextTab tabGroups r =
     (\<exists>group \<in> set tabGroups. \<exists>tab \<in> set (tabs group).
        \<exists>r'. input tab = TabInputText r' \<and> toString r' = toString r)"

section \<open>The gutter toggle of the merge editor (part_001, lines 625-686)\<close>

datatype ToggleState = unset | conflicting | first | second

datatype Codicon = check | checkAll | circleFilled

text \<open>What the autorun reads of the item: the two observables' current values.\<close>

record ModifiedBaseRangeGutterItemInfo =
  item_enabled :: bool
  toggleState :: ToggleState

record Toggle =
  icon :: "Codicon option"
  checked :: bool
  toggle_enabled :: bool

text \<open>The table \<open>iconMap\<close> of the autorun.\<close>

fun iconMap :: "ToggleState \<Rightarrow> Codicon option \<times> bool" where
  "iconMap unset = (None, False)"
| "iconMap conflicting = (Some circleFilled, False)"
| "iconMap first = (Some check, True)"
| "iconMap second = (Some checkAll, True)"

text \<open>The checkbox as the constructor creates it, and one run of the autorun.\<close>

definition newCheckBox :: Toggle where
  "newCheckBox = \<lparr>icon = Some check, checked = False, toggle_enabled = True\<rparr>"

definition updateToggleState :: "ModifiedBaseRangeGutterItemInfo \<Rightarrow> Toggle \<Rightarrow> Toggle" where
  "updateToggleState item checkBox =
     (let v = toggleState item;
          checkBox = checkBox\<lparr>icon := fst (iconMap v)\<rparr>;
          checkBox = checkBox\<lparr>checked := snd (iconMap v)\<rparr>
      in if \<not> item_enabled item
         then checkBox\<lparr>toggle_enabled := False\<rparr>
         else checkBox\<lparr>toggle_enabled := True\<rparr>)"

section \<open>In-flight requests (diagnostics.ts, lines 94-133)\<close>

text \<open>
  A \<open>CancellationTokenSource\<close> is known by the number of its creation; an entry of
  \<open>inFlightRequests\<close> is \<open>{ cts }\<close>, so it is known by that number too, and
  \<open>=== entry\<close> compares numbers. \<open>cancelledSources\<close> are the sources whose token has
  been signalled (\<open>cts.cancel()\<close>), \<open>disposedSources\<close> those given to \<open>cts.dispose()\<close>,
  which does not signal the token.
\<close>

record InflightDiagnosticRequests =
  inFlightRequests :: "nat ResourceMap"
  cancelledSources :: "nat set"
  disposedSources :: "nat set"
  nextSource :: nat

definition newInflightDiagnosticRequests :: InflightDiagnosticRequests where
  "newInflightDiagnosticRequests =
     \<lparr>inFlightRequests = [], cancelledSources = {}, disposedSources = {}, nextSource = 0\<rparr>"

definition cancel :: "Uri \<Rightarrow> InflightDiagnosticRequests \<Rightarrow> InflightDiagnosticRequests" where
  "cancel resource s =
     (case rm_get (inFlightRequests s) resource of
        Some existing \<Rightarrow>
          s\<lparr>cancelledSources := insert existing (cancelledSources s),
            inFlightRequests := rm_delete (inFlightRequests s) resource\<rparr>
      | None \<Rightarrow> s)"

text \<open>Lines 101-103 of \<open>trigger\<close>: the new source and its entry.\<close>

definition record_request :: "Uri \<Rightarrow> InflightDiagnosticRequests \<Rightarrow> nat \<times> InflightDiagnosticRequests" where
  "record_request resource s =
     (let cts = nextSource s
      in (cts, s\<lparr>nextSource := Suc cts,
                  inFlightRequests := rm_set (inFlightRequests s) resource cts\<rparr>))"

text \<open>
  \<open>trigger\<close> up to the call \<open>compute(cts.token)\<close>, which runs at once: the result is the
  new source, whose token the computation holds, and the state it starts in.
\<close>

definition trigger_start :: "Uri \<Rightarrow> InflightDiagnosticRequests \<Rightarrow> nat \<times> InflightDiagnosticRequests" where
  "trigger_start resource s = record_request resource (cancel resource s)"

text \<open>The \<open>finally\<close> block of \<open>trigger\<close>, run when the computation has settled.\<close>

definition trigger_finally :: "Uri \<Rightarrow> nat \<Rightarrow> InflightDiagnosticRequests \<Rightarrow> InflightDiagnosticRequests" where
  "trigger_finally resource entry s =
     (let s = (if rm_get (inFlightRequests s) resource = Some entry
               then s\<lparr>inFlightRequests := rm_delete (inFlightRequests s) resource\<rparr>
               else s)
      in s\<lparr>disposedSources := insert entry (disposedSources s)\<rparr>)"

definition clear :: "InflightDiagnosticRequests \<Rightarrow> InflightDiagnosticRequests" where
  "clear s =
     s\<lparr>disposedSources := disposedSources s \<union> set (rm_values (inFlightRequests s)),
       inFlightRequests := []\<rparr>"









section \<open>The link watcher (diagnostics.ts, lines 135-221)\<close>

text \<open>
  Modelled from the spec: the link types come from documentLinkProvider, which is not
  among the sources. A link has a source and a href; diagnostics.ts reads of a href its
  kind (internal, reference, or anything else), the path and fragment of an internal
  one and the name of a reference, and of a source its text, the range of the href,
  the range of the fragment if there is one, and the text of the path.
\<close>

datatype LinkHref =
    ExternalHref Uri
  | InternalHref (path: Uri) (fragment: string)
  | ReferenceHref (ref: string)

record MdLinkSource =
  linkText :: string
  hrefRange :: Range
  fragmentRange :: "Range option"
  pathText :: string

record MdLink =
  source :: MdLinkSource
  href :: LinkHref

text \<open>
  An entry of \<open>_watchers\<close>: the watcher, known by the number of its creation, and the
  documents that reference the path. Beside the map stand the watchers started so far
  (\<open>startWatching\<close>, each with the path it was started for) and those disposed.
\<close>

record WatcherEntry =
  watcher :: nat
  documents :: "Uri ResourceMap"

record LinkWatcher =
  watchers :: "WatcherEntry ResourceMap"
  startedWatchers :: "Uri list"
  disposedWatchers :: "nat list"

definition newLinkWatcher :: LinkWatcher where
  "newLinkWatcher = \<lparr>watchers = [], startedWatchers = [], disposedWatchers = []\<rparr>"

text \<open>
  \<open>startWatching\<close> (lines 205-213) asks the host for a file system watcher on the path
  (a \<open>RelativePattern(path, '*')\<close>, for create and delete events, not for changes); what
  the watcher reports is the host's.
\<close>

definition startWatching :: "Uri \<Rightarrow> LinkWatcher \<Rightarrow> nat \<times> LinkWatcher" where
  "startWatching p w = (length (startedWatchers w), w\<lparr>startedWatchers := startedWatchers w @ [p]\<rparr>)"

fun isInternal :: "LinkHref \<Rightarrow> bool" where
  "isInternal (InternalHref p f) = True"
| "isInternal (ExternalHref u) = False"
| "isInternal (ReferenceHref r) = False"

text \<open>
  The three loops of \<open>updateLinksForDocument\<close>: the document leaves every entry; every
  linked path gets an entry, a new one with a new watcher if it has none, and the
  document joins it; every entry left without documents has its watcher disposed and is
  removed.
\<close>

definition forgetDocument :: "Uri \<Rightarrow> string \<times> Uri \<times> WatcherEntry \<Rightarrow> string \<times> Uri \<times> WatcherEntry" where
  "forgetDocument document e =
     (case e of (k, p, entry) \<Rightarrow> (k, p, entry\<lparr>documents := rm_delete (documents entry) document\<rparr>))"

definition watchLink :: "Uri \<Rightarrow> LinkWatcher \<Rightarrow> Uri \<Rightarrow> LinkWatcher" where
  "watchLink document w p =
     (case rm_get (watchers w) p of
        None \<Rightarrow>
          (case startWatching p w of (n, w') \<Rightarrow>
             w'\<lparr>watchers := rm_set (watchers w') p
                   \<lparr>watcher = n, documents = rm_set [] document document\<rparr>\<rparr>)
      | Some entry \<Rightarrow>
          w\<lparr>watchers := rm_modify (watchers w) p
                (\<lambda>entry. entry\<lparr>documents := rm_set (documents entry) document document\<rparr>)\<rparr>)"

definition cleanUp :: "LinkWatcher \<Rightarrow> string \<times> Uri \<times> WatcherEntry \<Rightarrow> LinkWatcher" where
  "cleanUp w e =
     (case e of (k, key, val) \<Rightarrow>
        if rm_size (documents val) = 0
        then w\<lparr>disposedWatchers := disposedWatchers w @ [watcher val],
               watchers := rm_delete (watchers w) key\<rparr>
        else w)"

definition updateLinksForDocument :: "Uri \<Rightarrow> MdLink list \<Rightarrow> LinkWatcher \<Rightarrow> LinkWatcher" where
  "updateLinksForDocument document links w =
     (let linkedToResource = new_Set (map (\<lambda>l. path (href l)) (filter (\<lambda>l. isInternal (href l)) links));
          w1 = w\<lparr>watchers := map (forgetDocument document) (watchers w)\<rparr>;
          w2 = foldl (watchLink document) w1 linkedToResource
      in foldl cleanUp w2 (watchers w2))"

definition deleteDocument :: "Uri \<Rightarrow> LinkWatcher \<Rightarrow> LinkWatcher" where
  "deleteDocument r w = updateLinksForDocument r [] w"

text \<open>
  The handler of a watcher's create and delete events: \<open>Some\<close> documents when the event
  \<open>onDidChangeLinkedToFile\<close> fires, with the documents it carries.
\<close>

definition onLinkedResourceChanged :: "Uri \<Rightarrow> LinkWatcher \<Rightarrow> Uri list option" where
  "onLinkedResourceChanged r w =
     (case rm_get (watchers w) r of
        Some entry \<Rightarrow> Some (rm_values (documents entry))
      | None \<Rightarrow> None)"

text \<open>
  Any sequence of calls on a new link watcher, and what the calls last reported for each
  document: the paths of the internal links, by their string form.
\<close>

datatype LinkWatcherCall = UpdateLinks Uri "MdLink list" | DeleteDocument Uri

fun linkwatcher_step :: "LinkWatcher \<Rightarrow> LinkWatcherCall \<Rightarrow> LinkWatcher" where
  "linkwatcher_step w (UpdateLinks document links) = updateLinksForDocument document links w"
| "linkwatcher_step w (DeleteDocument r) = deleteDocument r w"

definition linkwatcher_run :: "LinkWatcherCall list \<Rightarrow> LinkWatcher" where
  "linkwatcher_run calls = foldl linkwatcher_step newLinkWatcher calls"

definition internalPaths :: "MdLink list \<Rightarrow> string set" where
  "internalPaths links = {toString (path (href l)) | l. l \<in> set links \<and> isInternal (href l)}"

fun reported_step :: "(string \<Rightarrow> string set) \<Rightarrow> LinkWatcherCall \<Rightarrow> (string \<Rightarrow> string set)" where
  "reported_step L (UpdateLinks document links) = L(toString document := internalPaths links)"
| "reported_step L (DeleteDocument r) = L(toString r := {})"

definition lastReported :: "LinkWatcherCall list \<Rightarrow> string \<Rightarrow> string set" where
  "lastReported calls = foldl reported_step (\<lambda>d. {}) calls"

text \<open>
  Notions for the proofs: the documents recorded for a path; a map whose keys are the
  string forms of its resources, each once; the accounting of the watchers (an entry's
  watcher was started for the entry's path and is not disposed, and every watcher
  started is disposed or held by an entry).
\<close>

definition docsOf :: "WatcherEntry ResourceMap \<Rightarrow> string \<Rightarrow> string set" where
  "docsOf W p = (case map_of W p of None \<Rightarrow> {} | Some (u, e) \<Rightarrow> rm_keyset (documents e))"

definition wellKeyed :: "'v ResourceMap \<Rightarrow> bool" where
  "wellKeyed W = (distinct (map fst W) \<and> (\<forall>(k, u, e) \<in> set W. k = toString u))"

definition emptyKeys :: "(string \<times> Uri \<times> WatcherEntry) list \<Rightarrow> string set" where
  "emptyKeys es = {toString u | k u e. (k, u, e) \<in> set es \<and> rm_size (documents e) = 0}"

definition nonEmpty :: "string \<times> Uri \<times> WatcherEntry \<Rightarrow> bool" where
  "nonEmpty x = (rm_size (documents (snd (snd x))) \<noteq> 0)"

definition watcherOf :: "string \<times> Uri \<times> WatcherEntry \<Rightarrow> nat" where
  "watcherOf x = watcher (snd (snd x))"

definition accounted :: "LinkWatcher \<Rightarrow> bool" where
  "accounted w =
     ((\<forall>x \<in> set (watchers w).
         watcherOf x < length (startedWatchers w)
       \<and> toString (startedWatchers w ! watcherOf x) = fst x
       \<and> watcherOf x \<notin> set (disposedWatchers w))
    \<and> (\<forall>i \<in> set (disposedWatchers w). i < length (startedWatchers w))
    \<and> (\<forall>i < length (startedWatchers w).
         i \<in> set (disposedWatchers w) \<or> i \<in> watcherOf ` set (watchers w)))"

section \<open>The diagnostic computer (diagnostics.ts, lines 412-575)\<close>

text \<open>
  Of a document of the workspace (\<open>SkinnyTextDocument\<close>, workspaceContents) the code
  reads the resource.
\<close>

record SkinnyTextDocument =
  uri :: Uri

text \<open>\<open>s.startsWith(p)\<close> of JavaScript.\<close>

definition startsWith :: "string \<Rightarrow> string \<Rightarrow> bool" where
  "startsWith s p = (take (length p) s = p)"

text \<open>
  An exception of JavaScript, here a value: what a function throws and a rejected promise
  carries.
\<close>

datatype JsError = TypeError string

text \<open>
  What the computer asks of the host, each a function of the host's state at the time of
  the computation: the links of a document (\<open>linkComputer.getAllLinks\<close>); the markdown
  document a path leads to (\<open>tryFindMdDocumentForLink\<close> for the internal href of that
  path with an empty fragment); whether a path exists (\<open>workspaceContents.pathExists\<close>);
  whether the table of contents of a document has a header for a fragment
  (\<open>TableOfContents.create(engine, doc)\<close>, then \<open>lookup\<close>); whether the definitions among
  some links define a reference (\<open>new LinkDefinitionSet(links)\<close>, then \<open>lookup\<close>);
  what \<open>picomatch.isMatch(link, glob)\<close> answers for a glob it accepts; the range one
  character before a fragment range
  (\<open>fragmentRange.with({ start: fragmentRange.start.translate(0, -1) })\<close>); and the rank
  at which the queued check of a path finishes, its awaited answers having arrived.
\<close>

record Host =
  getAllLinks :: "SkinnyTextDocument \<Rightarrow> MdLink list"
  tryFindMdDocumentForLink :: "Uri \<Rightarrow> SkinnyTextDocument option"
  pathExists :: "Uri \<Rightarrow> bool"
  tocLookup :: "SkinnyTextDocument \<Rightarrow> string \<Rightarrow> bool"
  definitionLookup :: "MdLink list \<Rightarrow> string \<Rightarrow> bool"
  isMatch :: "string \<Rightarrow> string \<Rightarrow> bool"
  beforeFragment :: "Range \<Rightarrow> Range"
  finished :: "Uri \<Rightarrow> nat"

text \<open>
  What \<open>token.isCancellationRequested\<close> answers at each place that reads it: after the
  links are computed (line 459), after the table of contents of the document is built
  (line 480), and when the queued check of a path starts (line 541).
\<close>

record CancellationToken =
  requestedAfterLinks :: bool
  requestedAfterToc :: bool
  requestedAtPath :: "Uri \<Rightarrow> bool"

text \<open>
  \<open>picomatch.isMatch(str, glob)\<close> throws a \<open>TypeError\<close> when the glob is the empty string;
  for any other glob the answer is the host's.
\<close>

definition picomatch_isMatch :: "Host \<Rightarrow> string \<Rightarrow> string \<Rightarrow> JsError + bool" where
  "picomatch_isMatch host str glob =
     (if glob = [] then Inl (TypeError ''Expected pattern to be a non-empty string'')
      else Inr (isMatch host str glob))"

text \<open>
  \<open>array.some(callback)\<close> of JavaScript with a callback that may throw: the elements are
  tried in order up to the first for which the callback answers true, or throws.
\<close>

fun array_some :: "('a \<Rightarrow> JsError + bool) \<Rightarrow> 'a list \<Rightarrow> JsError + bool" where
  "array_some callback [] = Inr False"
| "array_some callback (x # xs) =
     (case callback x of
        Inl e \<Rightarrow> Inl e
      | Inr b \<Rightarrow> if b then Inr True else array_some callback xs)"

text \<open>\<open>isIgnoredLink\<close> (lines 572-574).\<close>

definition isIgnoredLink :: "Host \<Rightarrow> DiagnosticOptions \<Rightarrow> string \<Rightarrow> JsError + bool" where
  "isIgnoredLink host options l =
     array_some (\<lambda>glob. picomatch_isMatch host l glob) (ignoreLinks options)"

text \<open>
  A loop over a list whose body pushes diagnostics and may throw: the result is what
  was pushed, or the exception of the first body that throws. It is also the result of
  \<open>Promise.all\<close> over tasks that push to one array, taken in the order in which they
  finish.
\<close>

fun for_each :: "('a \<Rightarrow> JsError + 'b list) \<Rightarrow> 'a list \<Rightarrow> JsError + 'b list" where
  "for_each body [] = Inr []"
| "for_each body (x # xs) =
     (case body x of
        Inl e \<Rightarrow> Inl e
      | Inr pushed \<Rightarrow>
          (case for_each body xs of
             Inl e \<Rightarrow> Inl e
           | Inr rest \<Rightarrow> Inr (pushed @ rest)))"

text \<open>
  \<open>FileLinkMap\<close> (lines 415-447): for each path the outgoing links to it, each with its
  source and its fragment. The constructor appends to the array of the path's entry, or
  sets a new entry; a link that is not internal is skipped.
\<close>

type_synonym LinkData = "MdLinkSource \<times> string"

definition fileLinkMap_add :: "LinkData list ResourceMap \<Rightarrow> MdLink \<Rightarrow> LinkData list ResourceMap" where
  "fileLinkMap_add m l =
     (case href l of
        InternalHref p f \<Rightarrow>
          (case rm_get m p of
             Some existingFileEntry \<Rightarrow> rm_modify m p (\<lambda>outgoingLinks. outgoingLinks @ [(source l, f)])
           | None \<Rightarrow> rm_set m p [(source l, f)])
      | ExternalHref u \<Rightarrow> m
      | ReferenceHref n \<Rightarrow> m)"

definition FileLinkMap :: "MdLink list \<Rightarrow> LinkData list ResourceMap" where
  "FileLinkMap ls = foldl fileLinkMap_add [] ls"

text \<open>
  \<open>validateFileLinks\<close> (lines 522-570). The body of the task queued for one path is
  \<open>validatePath\<close>, with its two branches \<open>pathDiagnostics\<close> and \<open>fragmentDiagnostics\<close>; a
  task pushes its diagnostics after its last \<open>await\<close>, so the diagnostics of one path
  stand together in the result.

  Modelled from the spec: the class \<open>Limiter\<close> (util/limiter) is not among the sources.
  It runs the queued tasks, some of them at a time, and the promise of a task settles as
  the task does. The tasks are queued in the order of the entries of the map and finish
  in the order of their ranks (\<open>finished\<close>), tasks of equal rank in the order in which
  they were queued; that the limiter starts at most ten tasks at a time is not
  modelled, so every order of finishing is covered.
\<close>

definition pathDiagnostics ::
  "Host \<Rightarrow> DiagnosticOptions \<Rightarrow> DiagnosticSeverity \<Rightarrow> Uri \<Rightarrow> LinkData list
     \<Rightarrow> JsError + Diagnostic list" where
  "pathDiagnostics host options pathErrorSeverity p ls =
     for_each (\<lambda>l. case isIgnoredLink host options (pathText (fst l)) of
                      Inl e \<Rightarrow> Inl e
                    | Inr ignored \<Rightarrow>
                        Inr (if \<not> ignored
                             then [\<lparr>range = hrefRange (fst l), message = InvalidPathLink p,
                                     severity = pathErrorSeverity, link = Some (pathText (fst l))\<rparr>]
                             else [])) ls"

definition fragmentDiagnostic :: "Host \<Rightarrow> DiagnosticSeverity \<Rightarrow> LinkData \<Rightarrow> Diagnostic" where
  "fragmentDiagnostic host fragmentErrorSeverity l =
     \<lparr>range = (case fragmentRange (fst l) of
                  Some fr \<Rightarrow> beforeFragment host fr
                | None \<Rightarrow> hrefRange (fst l)),
      message = InvalidLinkToHeaderInOtherFile (snd l),
      severity = fragmentErrorSeverity, link = Some (linkText (fst l))\<rparr>"

definition fragmentDiagnostics ::
  "Host \<Rightarrow> DiagnosticOptions \<Rightarrow> DiagnosticSeverity \<Rightarrow> SkinnyTextDocument \<Rightarrow> LinkData list
     \<Rightarrow> JsError + Diagnostic list" where
  "fragmentDiagnostics host options fragmentErrorSeverity hrefDoc ls =
     (let fragmentLinks = filter (\<lambda>x. snd x \<noteq> []) ls
      in if length fragmentLinks \<noteq> 0
         then for_each
                (\<lambda>l. if \<not> tocLookup host hrefDoc (snd l)
                      then (case isIgnoredLink host options (pathText (fst l)) of
                              Inl e \<Rightarrow> Inl e
                            | Inr ignoredPath \<Rightarrow>
                                if \<not> ignoredPath
                                then (case isIgnoredLink host options (linkText (fst l)) of
                                        Inl e \<Rightarrow> Inl e
                                      | Inr ignoredText \<Rightarrow>
                                          Inr (if \<not> ignoredText
                                               then [fragmentDiagnostic host fragmentErrorSeverity l]
                                               else []))
                                else Inr [])
                      else Inr []) fragmentLinks
         else Inr [])"

definition validatePath ::
  "Host \<Rightarrow> DiagnosticOptions \<Rightarrow> CancellationToken \<Rightarrow> DiagnosticSeverity \<Rightarrow> DiagnosticSeverity option
     \<Rightarrow> string \<times> Uri \<times> LinkData list \<Rightarrow> JsError + Diagnostic list" where
  "validatePath host options token pathErrorSeverity fragmentErrorSeverity e =
     (case e of (k, p, ls) \<Rightarrow>
        if requestedAtPath token p then Inr []
        else (case tryFindMdDocumentForLink host p of
                None \<Rightarrow>
                  if \<not> pathExists host p
                  then pathDiagnostics host options pathErrorSeverity p ls
                  else Inr []
              | Some hrefDoc \<Rightarrow>
                  (case fragmentErrorSeverity of
                     Some s \<Rightarrow> fragmentDiagnostics host options s hrefDoc ls
                   | None \<Rightarrow> Inr [])))"

definition validateFileLinksPass ::
  "Host \<Rightarrow> DiagnosticOptions \<Rightarrow> MdLink list \<Rightarrow> CancellationToken \<Rightarrow> JsError + Diagnostic list" where
  "validateFileLinksPass host options ls token =
     (case toSeverity (validateFileLinks options) of
        None \<Rightarrow> Inr []
      | Some pathErrorSeverity \<Rightarrow>
          (let fragmentErrorSeverity =
                 toSeverity (case validateMarkdownFileLinkFragments options of
                               None \<Rightarrow> validateFragmentLinks options
                             | Some level \<Rightarrow> Some level);
               linkSet = FileLinkMap (filter (\<lambda>l. \<not> startsWith (linkText (source l)) ''#'') ls)
           in if rm_size linkSet = 0 then Inr []
              else for_each (validatePath host options token pathErrorSeverity fragmentErrorSeverity)
                     (sort_key (\<lambda>e. finished host (fst (snd e))) linkSet)))"

text \<open>\<open>validateReferenceLinks\<close> (lines 505-520).\<close>

definition validateReferenceLinksPass :: "Host \<Rightarrow> DiagnosticOptions \<Rightarrow> MdLink list \<Rightarrow> Diagnostic list" where
  "validateReferenceLinksPass host options ls =
     (case toSeverity (validateReferences options) of
        None \<Rightarrow> []
      | Some s \<Rightarrow>
          concat (map (\<lambda>l. case href l of
                              ReferenceHref n \<Rightarrow>
                                if \<not> definitionLookup host ls n
                                then [\<lparr>range = hrefRange (source l), message = InvalidReferenceLink n,
                                        severity = s, link = None\<rparr>]
                                else []
                            | InternalHref p f \<Rightarrow> []
                            | ExternalHref u \<Rightarrow> []) ls))"

text \<open>\<open>validateFragmentLinks\<close> (lines 473-503).\<close>

definition validateFragmentLinksPass ::
  "Host \<Rightarrow> SkinnyTextDocument \<Rightarrow> DiagnosticOptions \<Rightarrow> MdLink list \<Rightarrow> CancellationToken
     \<Rightarrow> JsError + Diagnostic list" where
  "validateFragmentLinksPass host doc options ls token =
     (case toSeverity (validateFragmentLinks options) of
        None \<Rightarrow> Inr []
      | Some s \<Rightarrow>
          if requestedAfterToc token then Inr []
          else for_each
                 (\<lambda>l. case href l of
                         InternalHref p f \<Rightarrow>
                           if startsWith (linkText (source l)) ''#''
                              \<and> toString p = toString (uri doc)
                              \<and> f \<noteq> []
                              \<and> \<not> tocLookup host doc f
                           then (case isIgnoredLink host options (linkText (source l)) of
                                   Inl e \<Rightarrow> Inl e
                                 | Inr ignored \<Rightarrow>
                                     Inr (if \<not> ignored
                                          then [\<lparr>range = hrefRange (source l),
                                                  message = InvalidHeaderLink f,
                                                  severity = s, link = Some (linkText (source l))\<rparr>]
                                          else []))
                           else Inr []
                       | ExternalHref u \<Rightarrow> Inr []
                       | ReferenceHref n \<Rightarrow> Inr []) ls)"

text \<open>
  \<open>getDiagnostics\<close> (lines 457-471) and what it returns. \<open>Promise.all\<close> rejects when the
  promise of the file-link pass or of the fragment-link pass does; the exception either
  carries is the same.
\<close>

record DiagnosticsResult =
  resultLinks :: "MdLink list"
  resultDiagnostics :: "Diagnostic list"

definition getDiagnostics ::
  "Host \<Rightarrow> SkinnyTextDocument \<Rightarrow> DiagnosticOptions \<Rightarrow> CancellationToken
     \<Rightarrow> JsError + DiagnosticsResult" where
  "getDiagnostics host doc options token =
     (let ls = getAllLinks host doc
      in if requestedAfterLinks token \<or> \<not> enabled options
         then Inr \<lparr>resultLinks = ls, resultDiagnostics = []\<rparr>
         else (case validateFileLinksPass host options ls token of
                 Inl e \<Rightarrow> Inl e
               | Inr ofFileLinks \<Rightarrow>
                   (case validateFragmentLinksPass host doc options ls token of
                      Inl e \<Rightarrow> Inl e
                    | Inr ofFragmentLinks \<Rightarrow>
                        Inr \<lparr>resultLinks = ls,
                             resultDiagnostics =
                               concat [ofFileLinks,
                                       validateReferenceLinksPass host options ls,
                                       ofFragmentLinks]\<rparr>)))"












text \<open>
  Inputs for the examples: a workspace without files, links or headers, where no glob
  matches; a token that is never cancelled; options that are enabled and validate
  everything at one level; a link to a file.
\<close>

definition emptyWorkspace :: Host where
  "emptyWorkspace =
     \<lparr>getAllLinks = (\<lambda>doc. []), tryFindMdDocumentForLink = (\<lambda>p. None), pathExists = (\<lambda>p. False),
      tocLookup = (\<lambda>doc f. False), definitionLookup = (\<lambda>ls n. False), isMatch = (\<lambda>l glob. False),
      beforeFragment = (\<lambda>r. r), finished = (\<lambda>p. 0)\<rparr>"

definition notCancelled :: CancellationToken where
  "notCancelled =
     \<lparr>requestedAfterLinks = False, requestedAfterToc = False, requestedAtPath = (\<lambda>p. False)\<rparr>"

definition validating :: "DiagnosticLevel option \<Rightarrow> DiagnosticOptions" where
  "validating level =
     \<lparr>enabled = True, validateReferences = level, validateFragmentLinks = level,
      validateFileLinks = level, validateMarkdownFileLinkFragments = None, ignoreLinks = []\<rparr>"

definition linkToFile :: "Uri \<Rightarrow> string \<Rightarrow> MdLink" where
  "linkToFile p t =
     \<lparr>source = \<lparr>linkText = t, hrefRange = ((0, 1), (0, 1 + length t)), fragmentRange = None,
                pathText = t\<rparr>,
      href = InternalHref p []\<rparr>"

section \<open>The diagnostic manager (diagnostics.ts, lines 297-410)\<close>

text \<open>An open text document of the host (\<open>vscode.workspace.textDocuments\<close>).\<close>

record TextDocument = SkinnyTextDocument +
  languageId :: string

text \<open>
  Modelled from the spec: the class \<open>Delayer\<close> (util/async) is not among the sources.
  It debounces: \<open>trigger\<close> keeps the task given last, cancels the timer that is armed and
  arms a new one with the default delay, and returns the promise of the next run, one
  promise for all the triggers before that run; when the timer fires, the task kept runs
  once. The manager only ever gives it the task that calls
  \<open>recomputePendingDiagnostics\<close>. \<open>timeout\<close> is the delay of the armed timer, if one is
  armed; a promise is known by the number of its creation.
\<close>

datatype DelayerTask = RecomputePendingDiagnostics

record Delayer =
  defaultDelay :: nat
  timeout :: "nat option"
  task :: "DelayerTask option"
  completionPromise :: "nat option"
  promises :: nat

definition newDelayer :: "nat \<Rightarrow> Delayer" where
  "newDelayer d = \<lparr>defaultDelay = d, timeout = None, task = None, completionPromise = None, promises = 0\<rparr>"

definition delayer_trigger :: "DelayerTask \<Rightarrow> Delayer \<Rightarrow> nat \<times> Delayer" where
  "delayer_trigger t d =
     (let d = d\<lparr>task := Some t\<rparr>;
          d = d\<lparr>timeout := None\<rparr>;
          (p, d) = (case completionPromise d of
                      Some p \<Rightarrow> (p, d)
                    | None \<Rightarrow> (promises d, d\<lparr>completionPromise := Some (promises d),
                                                promises := Suc (promises d)\<rparr>));
          d = d\<lparr>timeout := Some (defaultDelay d)\<rparr>
      in (p, d))"

text \<open>The timer fires: the task to run and the promise that settles with it.\<close>

definition delayer_timeout :: "Delayer \<Rightarrow> (DelayerTask option \<times> nat option) \<times> Delayer" where
  "delayer_timeout d =
     (case timeout d of
        None \<Rightarrow> ((None, None), d)
      | Some delay \<Rightarrow>
          ((task d, completionPromise d),
           d\<lparr>timeout := None, completionPromise := None, task := None\<rparr>))"

text \<open>
  The manager: its fields, the constructor with its parameter \<open>delay = 300\<close>, and
  \<open>triggerDiagnostics\<close> (lines 404-409).
\<close>

record DiagnosticManager =
  diagnosticDelayer :: Delayer
  pendingDiagnostics :: "Uri list"
  inFlightDiagnostics :: InflightDiagnosticRequests
  linkWatcher :: LinkWatcher
  reporter :: DiagnosticCollectionReporter

definition newDiagnosticManager :: "nat option \<Rightarrow> DiagnosticManager" where
  "newDiagnosticManager delay =
     \<lparr>diagnosticDelayer = newDelayer (case delay of None \<Rightarrow> 300 | Some d \<Rightarrow> d),
      pendingDiagnostics = [],
      inFlightDiagnostics = newInflightDiagnosticRequests,
      linkWatcher = newLinkWatcher,
      reporter = \<lparr>pending = [], collection = []\<rparr>\<rparr>"

definition triggerDiagnostics :: "Uri \<Rightarrow> DiagnosticManager \<Rightarrow> DiagnosticManager" where
  "triggerDiagnostics r m =
     (let m = m\<lparr>inFlightDiagnostics := cancel r (inFlightDiagnostics m)\<rparr>;
          m = m\<lparr>pendingDiagnostics := set_add (pendingDiagnostics m) r\<rparr>;
          (recompute, d) = delayer_trigger RecomputePendingDiagnostics (diagnosticDelayer m);
          m = m\<lparr>diagnosticDelayer := d\<rparr>
      in m\<lparr>reporter := signalTriggered r recompute (reporter m)\<rparr>)"

text \<open>
  \<open>recomputePendingDiagnostics\<close> (lines 378-392) up to the start of each computation:
  the snapshot, the clearing of the set, and for each resource of the snapshot the
  document of the workspace and, if there is one, \<open>inFlightDiagnostics.trigger\<close>. The
  result lists the computations started, each with the resource it was started for, the
  document, and the source whose token it holds. The lookups of the documents are
  awaited one beside the other; they are taken here in the order of the snapshot.
\<close>

type_synonym StartedComputation = "Uri \<times> SkinnyTextDocument \<times> nat"

definition recomputeResource ::
  "(Uri \<Rightarrow> SkinnyTextDocument option) \<Rightarrow> DiagnosticManager \<times> StartedComputation list \<Rightarrow> Uri
     \<Rightarrow> DiagnosticManager \<times> StartedComputation list" where
  "recomputeResource getMarkdownDocument st r =
     (case st of (m, started) \<Rightarrow>
        (case getMarkdownDocument r of
           Some doc \<Rightarrow>
             (case trigger_start (uri doc) (inFlightDiagnostics m) of (token, inflight) \<Rightarrow>
                (m\<lparr>inFlightDiagnostics := inflight\<rparr>, started @ [(r, doc, token)]))
         | None \<Rightarrow> (m, started)))"

definition recomputePendingDiagnostics ::
  "(Uri \<Rightarrow> SkinnyTextDocument option) \<Rightarrow> DiagnosticManager
     \<Rightarrow> DiagnosticManager \<times> StartedComputation list" where
  "recomputePendingDiagnostics getMarkdownDocument m =
     (let snapshot = pendingDiagnostics m;
          m = m\<lparr>pendingDiagnostics := []\<rparr>
      in foldl (recomputeResource getMarkdownDocument) (m, []) snapshot)"

text \<open>The timer of the delayer fires and the task runs.\<close>

definition timerFired ::
  "(Uri \<Rightarrow> SkinnyTextDocument option) \<Rightarrow> DiagnosticManager
     \<Rightarrow> DiagnosticManager \<times> StartedComputation list" where
  "timerFired getMarkdownDocument m =
     (case delayer_timeout (diagnosticDelayer m) of
        ((Some RecomputePendingDiagnostics, p), d) \<Rightarrow>
          recomputePendingDiagnostics getMarkdownDocument (m\<lparr>diagnosticDelayer := d\<rparr>)
      | ((None, p), d) \<Rightarrow> (m\<lparr>diagnosticDelayer := d\<rparr>, []))"

text \<open>
  The listener of \<open>onDidChangeLinkedToFile\<close> (lines 340-347), and a create or delete
  event of a watcher followed by that listener when the event fires.
\<close>

definition retriggerIfOpen ::
  "(TextDocument \<Rightarrow> bool) \<Rightarrow> TextDocument list \<Rightarrow> DiagnosticManager \<Rightarrow> Uri \<Rightarrow> DiagnosticManager" where
  "retriggerIfOpen isMarkdownFile textDocuments m r =
     (case find (\<lambda>doc. toString (uri doc) = toString r) textDocuments of
        Some doc \<Rightarrow> if isMarkdownFile doc then triggerDiagnostics (uri doc) m else m
      | None \<Rightarrow> m)"

definition onDidChangeLinkedToFile ::
  "(TextDocument \<Rightarrow> bool) \<Rightarrow> TextDocument list \<Rightarrow> Uri list \<Rightarrow> DiagnosticManager \<Rightarrow> DiagnosticManager" where
  "onDidChangeLinkedToFile isMarkdownFile textDocuments changedDocuments m =
     foldl (retriggerIfOpen isMarkdownFile textDocuments) m changedDocuments"

definition linkedFileChanged ::
  "(TextDocument \<Rightarrow> bool) \<Rightarrow> TextDocument list \<Rightarrow> Uri \<Rightarrow> DiagnosticManager \<Rightarrow> DiagnosticManager" where
  "linkedFileChanged isMarkdownFile textDocuments r m =
     (case onLinkedResourceChanged r (linkWatcher m) of
        Some changedDocuments \<Rightarrow> onDidChangeLinkedToFile isMarkdownFile textDocuments changedDocuments m
      | None \<Rightarrow> m)"

text \<open>
  The listener of \<open>onDidCloseTextDocument\<close> (lines 333-338) and the first three lines of
  \<open>rebuild\<close> (lines 395-397); the rest of \<open>rebuild\<close> is a \<open>triggerDiagnostics\<close> for each
  markdown document.
\<close>

definition onDidCloseTextDocument :: "Uri \<Rightarrow> DiagnosticManager \<Rightarrow> DiagnosticManager" where
  "onDidCloseTextDocument r m =
     m\<lparr>pendingDiagnostics := removeAll r (pendingDiagnostics m),
       inFlightDiagnostics := cancel r (inFlightDiagnostics m),
       linkWatcher := deleteDocument r (linkWatcher m),
       reporter := reporter_delete r (reporter m)\<rparr>"

definition rebuild_clear :: "DiagnosticManager \<Rightarrow> DiagnosticManager" where
  "rebuild_clear m =
     m\<lparr>reporter := reporter_clear (reporter m),
       pendingDiagnostics := [],
       inFlightDiagnostics := clear (inFlightDiagnostics m)\<rparr>"

text \<open>
  \<open>recomputeDiagnosticState\<close> (lines 370-376); the links the computation reports to the
  link watcher (line 387: \<open>validateFileLinks\<close> is truthy unless it is undefined), if it
  reports any; and the rest of a computation started by \<open>recomputePendingDiagnostics\<close>,
  with the \<open>finally\<close> block of \<open>trigger\<close> that follows it. When \<open>getDiagnostics\<close> rejects,
  the callback of \<open>trigger\<close> rejects at line 386: nothing is reported to the link watcher
  or to the reporter, and the \<open>finally\<close> block runs.
\<close>

definition recomputeDiagnosticState ::
  "(Uri \<Rightarrow> DiagnosticOptions) \<Rightarrow> Host \<Rightarrow> SkinnyTextDocument \<Rightarrow> CancellationToken
     \<Rightarrow> JsError + (DiagnosticsResult \<times> DiagnosticOptions)" where
  "recomputeDiagnosticState getOptions host doc token =
     (let config = getOptions (uri doc)
      in if \<not> enabled config
         then Inr (\<lparr>resultLinks = [], resultDiagnostics = []\<rparr>, config)
         else (case getDiagnostics host doc config token of
                 Inl e \<Rightarrow> Inl e
               | Inr state \<Rightarrow> Inr (state, config)))"

definition watchedLinks ::
  "(Uri \<Rightarrow> DiagnosticOptions) \<Rightarrow> Host \<Rightarrow> SkinnyTextDocument \<Rightarrow> CancellationToken
     \<Rightarrow> MdLink list option" where
  "watchedLinks getOptions host doc token =
     (case recomputeDiagnosticState getOptions host doc token of
        Inl e \<Rightarrow> None
      | Inr (state, config) \<Rightarrow>
          Some (if enabled config \<and> validateFileLinks config \<noteq> None then resultLinks state else []))"

definition computed ::
  "(Uri \<Rightarrow> DiagnosticOptions) \<Rightarrow> Host \<Rightarrow> TabGroup list \<Rightarrow> SkinnyTextDocument \<Rightarrow> nat
     \<Rightarrow> CancellationToken \<Rightarrow> DiagnosticManager \<Rightarrow> DiagnosticManager" where
  "computed getOptions host tabGroups doc cts token m =
     (let m = (case recomputeDiagnosticState getOptions host doc token of
                 Inl e \<Rightarrow> m
               | Inr (state, config) \<Rightarrow>
                   (let m = m\<lparr>linkWatcher :=
                                updateLinksForDocument (uri doc)
                                  (if enabled config \<and> validateFileLinks config \<noteq> None
                                   then resultLinks state else [])
                                  (linkWatcher m)\<rparr>
                    in m\<lparr>reporter := reporter_set tabGroups (uri doc) (resultDiagnostics state)
                                        (reporter m)\<rparr>))
      in m\<lparr>inFlightDiagnostics := trigger_finally (uri doc) cts (inFlightDiagnostics m)\<rparr>)"

text \<open>
  What happens to a manager, in any order: a call of \<open>triggerDiagnostics\<close> (a document is
  created or changed, a table of contents changes, \<open>rebuild\<close> goes through the
  documents); the timer fires, with the workspace as it is then; a computation ends,
  with the configuration, the host and the tabs as they are then; the promise of a run
  settles; a watcher reports a created or deleted file, with the open documents as they
  are then; a document is closed; \<open>rebuild\<close> clears.
\<close>

datatype ManagerEvent =
    TriggerDiagnostics Uri
  | TimerFires "Uri \<Rightarrow> SkinnyTextDocument option"
  | Computed "Uri \<Rightarrow> DiagnosticOptions" Host "TabGroup list" SkinnyTextDocument nat CancellationToken
  | RecomputeSettled nat
  | LinkedFileChanged "TextDocument \<Rightarrow> bool" "TextDocument list" Uri
  | CloseTextDocument Uri
  | Rebuild

fun manager_step :: "DiagnosticManager \<Rightarrow> ManagerEvent \<Rightarrow> DiagnosticManager" where
  "manager_step m (TriggerDiagnostics r) = triggerDiagnostics r m"
| "manager_step m (TimerFires getMarkdownDocument) = fst (timerFired getMarkdownDocument m)"
| "manager_step m (Computed getOptions host tabGroups doc cts token) =
     computed getOptions host tabGroups doc cts token m"
| "manager_step m (RecomputeSettled recompute) =
     m\<lparr>reporter := recomputeSettled recompute (reporter m)\<rparr>"
| "manager_step m (LinkedFileChanged isMarkdownFile textDocuments r) =
     linkedFileChanged isMarkdownFile textDocuments r m"
| "manager_step m (CloseTextDocument r) = onDidCloseTextDocument r m"
| "manager_step m Rebuild = rebuild_clear m"

text \<open>The calls an event makes on the link watcher.\<close>

fun watcherCall :: "ManagerEvent \<Rightarrow> LinkWatcherCall list" where
  "watcherCall (Computed getOptions host tabGroups doc cts token) =
     (case watchedLinks getOptions host doc token of
        Some links \<Rightarrow> [UpdateLinks (uri doc) links]
      | None \<Rightarrow> [])"
| "watcherCall (CloseTextDocument r) = [DeleteDocument r]"
| "watcherCall (TriggerDiagnostics r) = []"
| "watcherCall (TimerFires getMarkdownDocument) = []"
| "watcherCall (RecomputeSettled recompute) = []"
| "watcherCall (LinkedFileChanged isMarkdownFile textDocuments r) = []"
| "watcherCall Rebuild = []"

definition watcherCalls :: "ManagerEvent list \<Rightarrow> LinkWatcherCall list" where
  "watcherCalls events = concat (map watcherCall events)"

text \<open>
  Notions for the statements and proofs: the open markdown document of a resource, as
  the listener looks for it; an entry whose documents are keyed by their own string
  form; a workspace that has a document for a resource; what every manager keeps.
\<close>

definition openMarkdownDocument ::
  "(TextDocument \<Rightarrow> bool) \<Rightarrow> TextDocument list \<Rightarrow> Uri \<Rightarrow> TextDocument option" where
  "openMarkdownDocument isMarkdownFile textDocuments r =
     (case find (\<lambda>doc. toString (uri doc) = toString r) textDocuments of
        Some doc \<Rightarrow> if isMarkdownFile doc then Some doc else None
      | None \<Rightarrow> None)"

definition docsKeyed :: "WatcherEntry \<Rightarrow> bool" where
  "docsKeyed e =
     (wellKeyed (documents e) \<and> (\<forall>x \<in> set (documents e). snd (snd x) = fst (snd x)))"

definition manager_run :: "nat option \<Rightarrow> ManagerEvent list \<Rightarrow> DiagnosticManager" where
  "manager_run delay events = foldl manager_step (newDiagnosticManager delay) events"

definition hasDocument :: "(Uri \<Rightarrow> SkinnyTextDocument option) \<Rightarrow> Uri \<Rightarrow> bool" where
  "hasDocument getMarkdownDocument r = (getMarkdownDocument r \<noteq> None)"

definition manager_inv :: "nat option \<Rightarrow> DiagnosticManager \<Rightarrow> bool" where
  "manager_inv delay m =
     (defaultDelay (diagnosticDelayer m) = (case delay of None \<Rightarrow> 300 | Some d \<Rightarrow> d)
    \<and> distinct (pendingDiagnostics m)
    \<and> (timeout (diagnosticDelayer m) \<noteq> None \<longrightarrow>
          timeout (diagnosticDelayer m) = Some (defaultDelay (diagnosticDelayer m))
        \<and> task (diagnosticDelayer m) = Some RecomputePendingDiagnostics)
    \<and> (pendingDiagnostics m \<noteq> [] \<longrightarrow> timeout (diagnosticDelayer m) \<noteq> None))"

text \<open>
  Inputs for the examples: a workspace with markdown documents for the resources of
  some names, and the test of \<open>isMarkdownFile\<close> (util/file) on the language of a document.
\<close>

definition workspaceOf :: "string list \<Rightarrow> Uri \<Rightarrow> SkinnyTextDocument option" where
  "workspaceOf names r = (if toString r \<in> set names then Some \<lparr>uri = r\<rparr> else None)"

definition languageIsMarkdown :: "TextDocument \<Rightarrow> bool" where
  "languageIsMarkdown doc = (languageId doc = ''markdown'')"

section \<open>The loader bundle of the optimizer (optimize.js, lines 50-93)\<close>

text \<open>
  A file of the stream (vinyl): its path, its base and its contents; and
  \<open>s.endsWith(p)\<close> of JavaScript.
\<close>

record VinylFile =
  vpath :: string
  vbase :: string
  contents :: string

definition endsWith :: "string \<Rightarrow> string \<Rightarrow> bool" where
  "endsWith s p = (length p \<le> length s \<and> drop (length s - length p) s = p)"

definition order :: "VinylFile \<Rightarrow> nat" where
  "order f =
     (if endsWith (vpath f) ''loader.js'' then 0
      else if endsWith (vpath f) ''css.js'' then 1
      else if endsWith (vpath f) ''nls.js'' then 2
      else 3)"

text \<open>
  The function that the through-stream of \<open>loader\<close> runs at the end of its input
  (lines 71-91), on the files it has collected, in the order they arrived from the
  merged streams: it sorts them by \<open>order\<close> (\<open>Array.prototype.sort\<close> keeps the order of
  files that compare equal), puts the header first and, if \<open>externalLoaderInfo\<close> is
  defined, the configuration last, and emits them. The result is the files emitted.
  \<open>stringify\<close> stands for \<open>JSON.stringify(externalLoaderInfo, undefined, 2)\<close>.
\<close>

definition loader_end :: "string \<Rightarrow> 'i option \<Rightarrow> ('i \<Rightarrow> string) \<Rightarrow> VinylFile list \<Rightarrow> VinylFile list" where
  "loader_end bundledFileHeader externalLoaderInfo stringify files =
     (let files = sort_key order files;
          files = \<lparr>vpath = ''fake'', vbase = ''.'', contents = bundledFileHeader\<rparr> # files;
          files = (case externalLoaderInfo of
                     Some info \<Rightarrow>
                       files @ [\<lparr>vpath = ''fake2'', vbase = ''.'',
                                 contents = ''require.config('' @ stringify info @ '');''\<rparr>]
                   | None \<Rightarrow> files)
      in files)"

text \<open>
  Modelled from the spec: \<open>concat\<close> is the package gulp-concat, which is not among the
  sources; it concatenates the contents of the files it receives, in their order, with
  a separator between two files, into one file of the given name.
\<close>

fun join :: "string \<Rightarrow> string list \<Rightarrow> string" where
  "join newLine [] = []"
| "join newLine [x] = x"
| "join newLine (x # y # ys) = x @ newLine @ join newLine (y # ys)"

definition concat_files :: "string \<Rightarrow> string \<Rightarrow> VinylFile list \<Rightarrow> string \<times> string" where
  "concat_files name newLine files = (name, join newLine (map contents files))"

definition loader ::
  "string \<Rightarrow> 'i option \<Rightarrow> ('i \<Rightarrow> string) \<Rightarrow> string \<Rightarrow> VinylFile list \<Rightarrow> string \<times> string" where
  "loader bundledFileHeader externalLoaderInfo stringify newLine files =
     concat_files ''vs/loader.js'' newLine
       (loader_end bundledFileHeader externalLoaderInfo stringify files)"

section \<open>The merge editor (part_001, lines 61-413 and 468-539)\<close>

text \<open>
  Modelled from the spec: the model of a merge (mergeEditorModel) and the editor input
  (mergeEditorInput) are not among the sources. \<open>setInput\<close> reads of the model the text
  models of the two inputs, of the result and of the base, and the details and
  descriptions of the inputs; of the input it asks \<open>resolve()\<close>, which gives the model or
  rejects.
\<close>

datatype ITextModel = TextModel (modelUri: Uri)

record MergeEditorModel =
  input1 :: ITextModel
  input1Detail :: "string option"
  input1Description :: "string option"
  input2 :: ITextModel
  input2Detail :: "string option"
  input2Description :: "string option"
  result :: ITextModel
  base :: ITextModel

datatype MergeEditorError = BugIndicatingError string | Rejected string

datatype EditorInput =
    MergeEditorInput "MergeEditorError + MergeEditorModel"
  | OtherEditorInput

text \<open>
  A \<open>CodeEditorView\<close> (lines 468-539) is an \<open>InputCodeEditorView\<close> with its input number
  or the \<open>ResultCodeEditorView\<close>. It holds the text model of its editor, its title and
  detail labels, and the merge model.
\<close>

datatype ViewKind = InputCodeEditorView nat | ResultCodeEditorView

record CodeEditorView =
  kind :: ViewKind
  readonly :: bool
  editorModel :: "ITextModel option"
  title :: "string \<times> string option"
  detail :: "string \<times> string option"
  viewModel :: "MergeEditorModel option"

definition newCodeEditorView :: "ViewKind \<Rightarrow> bool \<Rightarrow> CodeEditorView" where
  "newCodeEditorView k ro =
     \<lparr>kind = k, readonly = ro, editorModel = None, title = ([], None), detail = ([], None),
      viewModel = None\<rparr>"

definition setModel ::
  "MergeEditorModel \<Rightarrow> ITextModel \<Rightarrow> string \<Rightarrow> string option \<Rightarrow> string option
     \<Rightarrow> CodeEditorView \<Rightarrow> CodeEditorView" where
  "setModel m textModel t description d v =
     v\<lparr>editorModel := Some textModel, title := (t, description), detail := ([], d),
       viewModel := Some m\<rparr>"

text \<open>The three views of the merge editor (lines 69-71) and what \<open>setInput\<close> sets beside them.\<close>

record MergeEditor =
  input1View :: CodeEditorView
  input2View :: CodeEditorView
  inputResultView :: CodeEditorView
  model :: "MergeEditorModel option"
  editorInput :: "EditorInput option"
  ctxBaseResourceScheme :: string

definition newMergeEditor :: "bool \<Rightarrow> MergeEditor" where
  "newMergeEditor inputsWritable =
     \<lparr>input1View = newCodeEditorView (InputCodeEditorView 1) (\<not> inputsWritable),
      input2View = newCodeEditorView (InputCodeEditorView 2) (\<not> inputsWritable),
      inputResultView = newCodeEditorView ResultCodeEditorView False,
      model = None, editorInput = None, ctxBaseResourceScheme = []\<rparr>"

text \<open>
  The grid of \<open>createEditorControl\<close> (lines 225-245): groups with sizes, and at the leaves
  the views of the editor, named by the fields that hold them.
\<close>

datatype Pane = Input1View | Input2View | InputResultView

fun pane :: "MergeEditor \<Rightarrow> Pane \<Rightarrow> CodeEditorView" where
  "pane e Input1View = input1View e"
| "pane e Input2View = input2View e"
| "pane e InputResultView = inputResultView e"

datatype 'a GridDescriptor =
    GridData "nat option" 'a
  | GridGroups "nat option" "'a GridDescriptor list"

fun gridViews :: "'a GridDescriptor \<Rightarrow> 'a list" where
  "gridViews (GridData s v) = [v]"
| "gridViews (GridGroups s gs) = concat (map gridViews gs)"

definition createEditorControl :: "Pane GridDescriptor" where
  "createEditorControl =
     GridGroups (Some 100)
       [GridGroups (Some 38) [GridData None Input1View, GridData None Input2View],
        GridData (Some 62) InputResultView]"

text \<open>
  \<open>setInput\<close> (lines 271-324) up to the alignment of the view zones, which is not
  modelled. \<open>superSetInput\<close> is the error \<open>super.setInput\<close> rejects with, if it does;
  \<open>getUriLabel\<close> is the label service, \<open>uriScheme\<close> the scheme of a resource.
\<close>

definition setInput ::
  "MergeEditorError option \<Rightarrow> (Uri \<Rightarrow> string) \<Rightarrow> (Uri \<Rightarrow> string) \<Rightarrow> EditorInput \<Rightarrow> MergeEditor
     \<Rightarrow> MergeEditorError + MergeEditor" where
  "setInput superSetInput getUriLabel uriScheme inp e =
     (case inp of
        OtherEditorInput \<Rightarrow> Inl (BugIndicatingError ''ONLY MergeEditorInput is supported'')
      | MergeEditorInput resolve \<Rightarrow>
          (case superSetInput of
             Some err \<Rightarrow> Inl err
           | None \<Rightarrow>
               (case resolve of
                  Inl err \<Rightarrow> Inl err
                | Inr m \<Rightarrow>
                    Inr (e\<lparr>editorInput := Some inp,
                           model := Some m,
                           input1View := setModel m (input1 m) ''Yours'' (input1Detail m)
                                           (input1Description m) (input1View e),
                           input2View := setModel m (input2 m) ''Theirs'' (input2Detail m)
                                           (input2Description m) (input2View e),
                           inputResultView := setModel m (result m) ''Result''
                                           (Some (getUriLabel (modelUri (result m)))) None
                                           (inputResultView e),
                           ctxBaseResourceScheme := uriScheme (modelUri (base m))\<rparr>))))"

text \<open>An input for the examples: the merge of a file of a repository.\<close>

definition exampleMerge :: MergeEditorModel where
  "exampleMerge =
     \<lparr>input1 = TextModel (Uri 1 ''git:/repo/f.txt?ours''), input1Detail = Some ''main'',
      input1Description = None,
      input2 = TextModel (Uri 2 ''git:/repo/f.txt?theirs''), input2Detail = Some ''topic'',
      input2Description = None,
      result = TextModel (Uri 3 ''file:///repo/f.txt''),
      base = TextModel (Uri 4 ''git:/repo/f.txt?base'')\<rparr>"

section \<open>Properties of the resource map\<close>

lemma rm_get_set: "rm_get (rm_set m r v) r' = (if toString r' = toString r then Some v else rm_get m r')"
  by (simp add: rm_get_def rm_set_def update_conv')







section \<open>Properties of the in-flight requests\<close>

















section \<open>Properties of the reporter\<close>

lemma rm_has_set: "rm_has (rm_set m r v) r' = (toString r' = toString r \<or> rm_has m r')"
  by (simp add: rm_has_def rm_set_def update_conv')

lemma rm_has_openTabs:
  "rm_has (foldl openTab m ts) r =
     (rm_has m r \<or> (\<exists>tab \<in> set ts. \<exists>r'. input tab = TabInputText r' \<and> toString r' = toString r))"
proof (induction ts arbitrary: m)
  case Nil
  show ?case by simp
next
  case (Cons t ts)
  show ?case
  proof (cases "input t")
    case (TabInputText x)
    then have "openTab m t = rm_set m x ()" by (simp add: openTab_def)
    then show ?thesis using TabInputText by (auto simp: Cons.IH rm_has_set)
  next
    case TabInputOther
    then have "openTab m t = m" by (simp add: openTab_def)
    then show ?thesis using TabInputOther by (auto simp: Cons.IH)
  qed
qed

lemma rm_has_openGroups:
  "rm_has (foldl (\<lambda>openedTabDocs group. foldl openTab openedTabDocs (tabs group)) m gs) r =
     (rm_has m r \<or> openAsTextTab gs r)"
proof (induction gs arbitrary: m)
  case Nil
  show ?case by (simp add: openAsTextTab_def)
next
  case (Cons g gs)
  show ?case
    by (simp add: Cons.IH rm_has_openTabs openAsTextTab_def)
qed

lemma rm_has_getAllTabResources: "rm_has (getAllTabResources tabGroups) r = openAsTextTab tabGroups r"
  unfolding getAllTabResources_def rm_has_openGroups by (simp add: rm_has_def)

text \<open>
  Claim C9. For every resource and every computed list of diagnostics,
  \<open>DiagnosticCollectionReporter.set\<close> stores for the resource the computed diagnostics
  when the resource is the resource of a text tab of some tab group, and the empty list
  when it is not, whatever was computed.
\<close>

theorem reporter_set_only_open_tabs:
  "rm_get (collection (reporter_set tabGroups r diagnostics rep)) r =
     Some (if openAsTextTab tabGroups r then diagnostics else [])"
  by (simp add: reporter_set_def Let_def rm_get_set rm_has_getAllTabResources)

section \<open>Properties of the gutter toggle\<close>

text \<open>
  Claim C7. The autorun of a gutter toggle sets the checkbox from the item's toggle state
  alone, for each of its four values: unset gives no icon and unchecked, conflicting
  the circleFilled icon and unchecked, first the check icon and checked, second the
  checkAll icon and checked; and the checkbox ends disabled exactly when the item's
  \<open>enabled\<close> reads false.
\<close>

theorem gutter_toggle_rendering:
  "updateToggleState item checkBox =
     \<lparr>icon = (case toggleState item of
                unset \<Rightarrow> None
              | conflicting \<Rightarrow> Some circleFilled
              | first \<Rightarrow> Some check
              | second \<Rightarrow> Some checkAll),
      checked = (case toggleState item of
                unset \<Rightarrow> False
              | conflicting \<Rightarrow> False
              | first \<Rightarrow> True
              | second \<Rightarrow> True),
      toggle_enabled = item_enabled item\<rparr>"
  by (cases checkBox; cases "toggleState item") (simp_all add: updateToggleState_def Let_def)

section \<open>Properties of the link watcher\<close>

lemma set_set_add: "set (set_add s x) = insert x (set s)"
  by (auto simp: set_add_def)

lemma set_foldl_set_add: "set (foldl set_add s xs) = set s \<union> set xs"
  by (induction xs arbitrary: s) (auto simp: set_set_add)

lemma set_new_Set: "set (new_Set xs) = set xs"
  by (simp add: new_Set_def set_foldl_set_add)

lemma rm_keyset_set: "rm_keyset (rm_set m r v) = insert (toString r) (rm_keyset m)"
  by (simp add: rm_keyset_def rm_set_def dom_update)

lemma rm_keyset_delete: "rm_keyset (rm_delete m r) = rm_keyset m - {toString r}"
  by (auto simp: rm_keyset_def rm_delete_def AList.delete_eq)

lemma set_update_subset: "set (AList.update k v al) \<subseteq> insert (k, v) (set al)"
  by (induction al) auto

lemma wellKeyed_set: "wellKeyed W \<Longrightarrow> wellKeyed (rm_set W u v)"
  using set_update_subset[of "toString u" "(u, v)" W]
  by (auto simp: wellKeyed_def rm_set_def distinct_update)

lemma wellKeyed_map_of: "wellKeyed W \<Longrightarrow> (map_of W k = Some v) = ((k, v) \<in> set W)"
  by (simp add: wellKeyed_def)

lemma rm_modify_keys: "map fst (rm_modify m r f) = map fst m"
  by (induction m) (auto simp: rm_modify_def)

lemma rm_modify_map_of:
  "map_of (rm_modify m r f) k =
     (if k = toString r then map_option (\<lambda>(u, v). (u, f v)) (map_of m k) else map_of m k)"
  by (induction m) (auto simp: rm_modify_def)

lemma wellKeyed_modify: "wellKeyed W \<Longrightarrow> wellKeyed (rm_modify W r f)"
  unfolding wellKeyed_def rm_modify_keys by (fastforce simp: rm_modify_def split: if_splits)

lemma rm_keyset_modify: "rm_keyset (rm_modify m r f) = rm_keyset m"
  using rm_modify_keys[of m r f] unfolding rm_keyset_def by (metis set_map)

lemma docsOf_empty_iff:
  "wellKeyed W \<Longrightarrow> (k, u, e) \<in> set W \<Longrightarrow> docsOf W k = rm_keyset (documents e)"
  by (simp add: docsOf_def wellKeyed_def)

lemma docsOf_absent: "k \<notin> rm_keyset W \<Longrightarrow> docsOf W k = {}"
  by (simp add: docsOf_def rm_keyset_def map_of_eq_None_iff[THEN iffD2])

lemma forget_keys: "map fst (map (forgetDocument d) W) = map fst W"
  by (induction W) (auto simp: forgetDocument_def)

lemma forget_wellKeyed: "wellKeyed W \<Longrightarrow> wellKeyed (map (forgetDocument d) W)"
  unfolding wellKeyed_def forget_keys by (auto simp: forgetDocument_def)

lemma forget_map_of:
  "map_of (map (forgetDocument d) W) k =
     map_option (\<lambda>(u, e). (u, e\<lparr>documents := rm_delete (documents e) d\<rparr>)) (map_of W k)"
  by (induction W) (auto simp: forgetDocument_def)

lemma forget_docsOf: "docsOf (map (forgetDocument d) W) k = docsOf W k - {toString d}"
  by (auto simp: docsOf_def forget_map_of rm_keyset_delete split: option.splits)

lemma forget_keyset: "rm_keyset (map (forgetDocument d) W) = rm_keyset W"
  using forget_keys[of d W] unfolding rm_keyset_def by (metis set_map)

lemma watchLink_watchers:
  "watchers (watchLink d w p) =
     (case rm_get (watchers w) p of
        None \<Rightarrow> rm_set (watchers w) p \<lparr>watcher = length (startedWatchers w), documents = rm_set [] d d\<rparr>
      | Some entry \<Rightarrow> rm_modify (watchers w) p (\<lambda>entry. entry\<lparr>documents := rm_set (documents entry) d d\<rparr>))"
  by (simp add: watchLink_def startWatching_def split: option.splits)

lemma watchLink_wellKeyed: "wellKeyed (watchers w) \<Longrightarrow> wellKeyed (watchers (watchLink d w p))"
  by (simp add: watchLink_watchers wellKeyed_set wellKeyed_modify split: option.splits)

lemma rm_get_keyset: "rm_get m p = Some v \<Longrightarrow> toString p \<in> rm_keyset m"
  by (auto simp: rm_get_def rm_keyset_def dest!: map_of_SomeD intro: rev_image_eqI)

lemma watchLink_keyset: "rm_keyset (watchers (watchLink d w p)) = insert (toString p) (rm_keyset (watchers w))"
  by (auto simp: watchLink_watchers rm_keyset_set rm_keyset_modify dest: rm_get_keyset split: option.splits)

lemma watchLink_docsOf:
  "docsOf (watchers (watchLink d w p)) q =
     (if q = toString p then insert (toString d) (docsOf (watchers w) q) else docsOf (watchers w) q)"
proof (cases "rm_get (watchers w) p")
  case None
  have upd: "docsOf (rm_set W p v) q = (if q = toString p then rm_keyset (documents v) else docsOf W q)"
    for W :: "WatcherEntry ResourceMap" and v
    by (simp add: docsOf_def rm_set_def update_conv')
  from None have "docsOf (watchers w) (toString p) = {}"
    by (auto simp: rm_get_def docsOf_def)
  then show ?thesis
    by (auto simp: watchLink_watchers None upd rm_keyset_set rm_keyset_def[of "[]"])
next
  case (Some entry)
  then show ?thesis
    by (auto simp: watchLink_watchers docsOf_def rm_modify_map_of rm_keyset_set rm_get_def
        split: option.splits)
qed

lemma watchLinks_wellKeyed:
  "wellKeyed (watchers w) \<Longrightarrow> wellKeyed (watchers (foldl (watchLink d) w ps))"
  by (induction ps arbitrary: w) (simp_all add: watchLink_wellKeyed)

lemma watchLinks_keyset:
  "rm_keyset (watchers (foldl (watchLink d) w ps)) = rm_keyset (watchers w) \<union> toString ` set ps"
  by (induction ps arbitrary: w) (auto simp: watchLink_keyset)

lemma watchLinks_docsOf:
  "docsOf (watchers (foldl (watchLink d) w ps)) q =
     docsOf (watchers w) q \<union> (if q \<in> toString ` set ps then {toString d} else {})"
  by (induction ps arbitrary: w) (auto simp: watchLink_docsOf)

lemma cleanUp_watchers:
  "watchers (foldl cleanUp w es) = filter (\<lambda>e. fst e \<notin> emptyKeys es) (watchers w)"
proof (induction es arbitrary: w)
  case Nil
  show ?case by (simp add: emptyKeys_def)
next
  case (Cons x es)
  obtain k u e where x: "x = (k, u, e)" by (cases x)
  have K: "emptyKeys (x # es) = (if rm_size (documents e) = 0 then {toString u} else {}) \<union> emptyKeys es"
    by (auto simp: emptyKeys_def x)
  show ?case
    unfolding foldl_Cons Cons.IH K
    by (auto simp: cleanUp_def x rm_delete_def AList.delete_eq intro!: filter_cong)
qed

lemma cleanUp_all:
  assumes "wellKeyed W" "watchers w = W"
  shows "watchers (foldl cleanUp w W) = filter (\<lambda>x. rm_size (documents (snd (snd x))) \<noteq> 0) W"
proof -
  have "(fst x \<notin> emptyKeys W) = (rm_size (documents (snd (snd x))) \<noteq> 0)"
    if "x \<in> set W" for x
  proof -
    obtain k u e where x: "x = (k, u, e)" by (cases x)
    have ku: "k = toString u" using assms(1) that x by (auto simp: wellKeyed_def)
    have wk: "k' = toString u'" if "(k', u', e') \<in> set W" for k' u' e'
      using assms(1) that by (auto simp: wellKeyed_def)
    have uniq: "e' = e" if "(k, u', e') \<in> set W" for u' e'
    proof -
      have "map_of W k = Some (u', e')" "map_of W k = Some (u, e)"
        using assms(1) that \<open>x \<in> set W\<close> x by (simp_all add: wellKeyed_map_of)
      then show ?thesis by simp
    qed
    show ?thesis
    proof
      assume "fst x \<notin> emptyKeys W"
      then show "rm_size (documents (snd (snd x))) \<noteq> 0"
        using that x ku unfolding emptyKeys_def by auto
    next
      assume ne: "rm_size (documents (snd (snd x))) \<noteq> 0"
      show "fst x \<notin> emptyKeys W"
      proof
        assume "fst x \<in> emptyKeys W"
        then obtain k' u' e' where m: "(k', u', e') \<in> set W" and z: "rm_size (documents e') = 0"
          and eq: "k = toString u'"
          unfolding emptyKeys_def x by auto
        from wk[OF m] eq have "k' = k" by simp
        with m uniq have "e' = e" by blast
        with z ne x show False by simp
      qed
    qed
  qed
  then show ?thesis
    unfolding cleanUp_watchers assms(2) by (auto intro!: filter_cong)
qed

lemma cleanUp_other:
  "startedWatchers (foldl cleanUp w es) = startedWatchers w"
  "disposedWatchers (foldl cleanUp w es) =
     disposedWatchers w @ map (\<lambda>x. watcher (snd (snd x))) (filter (\<lambda>x. rm_size (documents (snd (snd x))) = 0) es)"
  by (induction es arbitrary: w) (auto simp: cleanUp_def split: prod.splits)

lemma watchLinks_started_prefix:
  "\<exists>ps'. startedWatchers (foldl (watchLink d) w ps) = startedWatchers w @ ps'"
proof (induction ps arbitrary: w)
  case Nil show ?case by simp
next
  case (Cons p ps)
  have "\<exists>qs. startedWatchers (watchLink d w p) = startedWatchers w @ qs"
    by (auto simp: watchLink_def startWatching_def split: option.splits)
  then obtain qs where q: "startedWatchers (watchLink d w p) = startedWatchers w @ qs" ..
  from Cons.IH[of "watchLink d w p"] q show ?case by auto
qed

lemma wellKeyed_filter: "wellKeyed W \<Longrightarrow> wellKeyed (filter P W)"
  by (auto simp: wellKeyed_def distinct_map_filter)

lemma map_of_filter_wellKeyed:
  "wellKeyed W \<Longrightarrow> map_of (filter P W) k =
     (case map_of W k of None \<Rightarrow> None | Some v \<Rightarrow> if P (k, v) then Some v else None)"
proof (induction W)
  case Nil show ?case by simp
next
  case (Cons x W)
  then have wk: "wellKeyed W" and nk: "fst x \<notin> fst ` set W" by (auto simp: wellKeyed_def)
  have none: "map_of W (fst x) = None" using nk by (simp add: map_of_eq_None_iff)
  show ?case
    using Cons.IH[OF wk] none by (cases x) (auto split: option.splits)
qed

lemma rm_size_keyset: "(rm_size m = 0) = (rm_keyset m = {})"
  by (simp add: rm_size_def rm_keyset_def)

lemma updateLinks_watchers:
  assumes "wellKeyed (watchers w)"
  shows "watchers (updateLinksForDocument d links w) =
     filter nonEmpty (watchers (foldl (watchLink d) (w\<lparr>watchers := map (forgetDocument d) (watchers w)\<rparr>)
        (new_Set (map (\<lambda>l. path (href l)) (filter (\<lambda>l. isInternal (href l)) links)))))"
    (is "_ = filter nonEmpty (watchers ?w2)")
proof -
  have "wellKeyed (watchers ?w2)"
    by (rule watchLinks_wellKeyed) (simp add: forget_wellKeyed assms)
  from cleanUp_all[OF this refl] show ?thesis
    by (simp add: updateLinksForDocument_def Let_def nonEmpty_def[abs_def])
qed

lemma internalPaths_image:
  "toString ` set (new_Set (map (\<lambda>l. path (href l)) (filter (\<lambda>l. isInternal (href l)) links))) = internalPaths links"
  by (auto simp: set_new_Set internalPaths_def)

lemma updateLinks_inv:
  fixes d links w
  defines "w' \<equiv> updateLinksForDocument d links w"
  assumes wk: "wellKeyed (watchers w)"
  shows "wellKeyed (watchers w')"
    and "docsOf (watchers w') q =
      (docsOf (watchers w) q - {toString d}) \<union> (if q \<in> internalPaths links then {toString d} else {})"
    and "rm_keyset (watchers w') = {q. docsOf (watchers w') q \<noteq> {}}"
    and "\<forall>x \<in> set (watchers w'). nonEmpty x"
proof -
  define w2 where "w2 = foldl (watchLink d) (w\<lparr>watchers := map (forgetDocument d) (watchers w)\<rparr>)
        (new_Set (map (\<lambda>l. path (href l)) (filter (\<lambda>l. isInternal (href l)) links)))"
  have W': "watchers w' = filter nonEmpty (watchers w2)"
    unfolding w'_def w2_def by (rule updateLinks_watchers[OF wk])
  have wk2: "wellKeyed (watchers w2)"
    unfolding w2_def by (rule watchLinks_wellKeyed) (simp add: forget_wellKeyed wk)
  show wk': "wellKeyed (watchers w')" unfolding W' by (rule wellKeyed_filter[OF wk2])
  have d2: "docsOf (watchers w2) q =
      (docsOf (watchers w) q - {toString d}) \<union> (if q \<in> internalPaths links then {toString d} else {})" for q
    unfolding w2_def watchLinks_docsOf internalPaths_image by (simp add: forget_docsOf)
  have same: "docsOf (watchers w') q = docsOf (watchers w2) q" for q
    unfolding W' docsOf_def map_of_filter_wellKeyed[OF wk2]
    by (auto simp: nonEmpty_def rm_size_keyset split: option.splits)
  show "docsOf (watchers w') q =
      (docsOf (watchers w) q - {toString d}) \<union> (if q \<in> internalPaths links then {toString d} else {})"
    unfolding same d2 ..
  show ne: "\<forall>x \<in> set (watchers w'). nonEmpty x" unfolding W' by simp
  show "rm_keyset (watchers w') = {q. docsOf (watchers w') q \<noteq> {}}"
  proof (intro set_eqI iffI)
    fix q assume "q \<in> rm_keyset (watchers w')"
    then obtain u e where m: "(q, u, e) \<in> set (watchers w')" by (auto simp: rm_keyset_def)
    with ne have "rm_keyset (documents e) \<noteq> {}" by (auto simp: nonEmpty_def rm_size_keyset)
    with docsOf_empty_iff[OF wk' m] show "q \<in> {q. docsOf (watchers w') q \<noteq> {}}" by simp
  next
    fix q assume "q \<in> {q. docsOf (watchers w') q \<noteq> {}}"
    then show "q \<in> rm_keyset (watchers w')" using docsOf_absent[of q "watchers w'"] by auto
  qed
qed

lemma set_rm_set:
  assumes "wellKeyed W"
  shows "set (rm_set W p v) = {x \<in> set W. fst x \<noteq> toString p} \<union> {(toString p, p, v)}"
proof -
  have wk': "wellKeyed (rm_set W p v)" by (rule wellKeyed_set[OF assms])
  have "(x \<in> set (rm_set W p v)) = (x \<in> {x \<in> set W. fst x \<noteq> toString p} \<union> {(toString p, p, v)})" for x
  proof -
    obtain k y where x: "x = (k, y)" by (cases x)
    have "(x \<in> set (rm_set W p v)) = (map_of (rm_set W p v) k = Some y)"
      unfolding x by (rule wellKeyed_map_of[OF wk', symmetric])
    also have "\<dots> = (if k = toString p then y = (p, v) else map_of W k = Some y)"
      by (auto simp: rm_set_def update_conv')
    also have "\<dots> = (if k = toString p then y = (p, v) else (k, y) \<in> set W)"
      by (simp add: wellKeyed_map_of[OF assms])
    finally show ?thesis unfolding x by auto
  qed
  then show ?thesis by blast
qed

lemma set_rm_modify:
  assumes "wellKeyed W" "map_of W (toString p) = Some (u, e)"
  shows "set (rm_modify W p f) = {x \<in> set W. fst x \<noteq> toString p} \<union> {(toString p, u, f e)}"
proof -
  have wk': "wellKeyed (rm_modify W p f)" by (rule wellKeyed_modify[OF assms(1)])
  have "(x \<in> set (rm_modify W p f)) = (x \<in> {x \<in> set W. fst x \<noteq> toString p} \<union> {(toString p, u, f e)})" for x
  proof -
    obtain k y where x: "x = (k, y)" by (cases x)
    have "(x \<in> set (rm_modify W p f)) = (map_of (rm_modify W p f) k = Some y)"
      unfolding x by (rule wellKeyed_map_of[OF wk', symmetric])
    also have "\<dots> = (if k = toString p then y = (u, f e) else map_of W k = Some y)"
      using assms(2) by (auto simp: rm_modify_map_of)
    also have "\<dots> = (if k = toString p then y = (u, f e) else (k, y) \<in> set W)"
      by (simp add: wellKeyed_map_of[OF assms(1)])
    finally show ?thesis unfolding x by auto
  qed
  then show ?thesis by blast
qed

lemma accounted_forget:
  "accounted w \<Longrightarrow> accounted (w\<lparr>watchers := map (forgetDocument d) (watchers w)\<rparr>)"
proof -
  have a: "watcherOf (forgetDocument d x) = watcherOf x" "fst (forgetDocument d x) = fst x" for x
    by (cases x; simp add: forgetDocument_def watcherOf_def)+
  have img: "watcherOf ` set (map (forgetDocument d) W) = watcherOf ` set W" for W
    by (auto simp: a image_iff intro: bexI)
  assume "accounted w"
  then show ?thesis
    unfolding accounted_def by (simp add: img del: set_map) (auto simp: a)
qed

lemma accountedI:
  assumes "\<And>x. x \<in> set (watchers w) \<Longrightarrow> watcherOf x < length (startedWatchers w)
       \<and> toString (startedWatchers w ! watcherOf x) = fst x
       \<and> watcherOf x \<notin> set (disposedWatchers w)"
    and "\<And>i. i \<in> set (disposedWatchers w) \<Longrightarrow> i < length (startedWatchers w)"
    and "\<And>i. i < length (startedWatchers w) \<Longrightarrow>
          i \<in> set (disposedWatchers w) \<or> i \<in> watcherOf ` set (watchers w)"
  shows "accounted w"
  unfolding accounted_def using assms by blast

lemma accountedD:
  assumes "accounted w"
  shows "\<And>x. x \<in> set (watchers w) \<Longrightarrow> watcherOf x < length (startedWatchers w)
       \<and> toString (startedWatchers w ! watcherOf x) = fst x
       \<and> watcherOf x \<notin> set (disposedWatchers w)"
    and "\<And>i. i \<in> set (disposedWatchers w) \<Longrightarrow> i < length (startedWatchers w)"
    and "\<And>i. i < length (startedWatchers w) \<Longrightarrow>
          i \<in> set (disposedWatchers w) \<or> i \<in> watcherOf ` set (watchers w)"
  using assms unfolding accounted_def by blast+

lemma accounted_watchLink:
  assumes wk: "wellKeyed (watchers w)" and acc: "accounted w"
  shows "accounted (watchLink d w p)"
proof (cases "rm_get (watchers w) p")
  case None
  define n where "n = length (startedWatchers w)"
  define v where "v = \<lparr>watcher = n, documents = rm_set [] d d\<rparr>"
  have w': "watchLink d w p = w\<lparr>startedWatchers := startedWatchers w @ [p],
        watchers := rm_set (watchers w) p v\<rparr>"
    using None by (simp add: watchLink_def startWatching_def v_def n_def)
  have nokey: "\<And>x. x \<in> set (watchers w) \<Longrightarrow> fst x \<noteq> toString p"
    using None by (force simp: rm_get_def map_of_eq_None_iff)
  have S: "set (rm_set (watchers w) p v) = insert (toString p, p, v) (set (watchers w))"
    unfolding set_rm_set[OF wk] using nokey by auto
  note old = accountedD[OF acc, folded n_def]
  have wv: "watcherOf (toString p, p, v) = n" by (simp add: watcherOf_def v_def)
  show ?thesis
  proof (rule accountedI)
    fix x assume "x \<in> set (watchers (watchLink d w p))"
    then have "x = (toString p, p, v) \<or> x \<in> set (watchers w)" by (simp add: w' S)
    then show "watcherOf x < length (startedWatchers (watchLink d w p))
       \<and> toString (startedWatchers (watchLink d w p) ! watcherOf x) = fst x
       \<and> watcherOf x \<notin> set (disposedWatchers (watchLink d w p))"
    proof
      assume x: "x = (toString p, p, v)"
      have "n \<notin> set (disposedWatchers w)" using old(2)[of n] by auto
      then show ?thesis by (simp add: x wv w' n_def)
    next
      assume "x \<in> set (watchers w)"
      from old(1)[OF this] show ?thesis by (simp add: w' n_def[symmetric] nth_append)
    qed
  next
    fix i assume "i \<in> set (disposedWatchers (watchLink d w p))"
    then show "i < length (startedWatchers (watchLink d w p))"
      using old(2)[of i] by (simp add: w' n_def[symmetric])
  next
    fix i assume "i < length (startedWatchers (watchLink d w p))"
    then have "i = n \<or> i < n" by (auto simp: w' n_def[symmetric])
    then show "i \<in> set (disposedWatchers (watchLink d w p))
        \<or> i \<in> watcherOf ` set (watchers (watchLink d w p))"
    proof
      assume "i = n"
      then have "i = watcherOf (toString p, p, v)" by (simp add: wv)
      then show ?thesis by (simp add: w' S)
    next
      assume "i < n"
      from old(3)[OF this] show ?thesis by (auto simp: w' S)
    qed
  qed
next
  case (Some entry)
  define f :: "WatcherEntry \<Rightarrow> WatcherEntry"
    where "f = (\<lambda>entry. entry\<lparr>documents := rm_set (documents entry) d d\<rparr>)"
  define v where "v = f entry"
  have w': "watchLink d w p = w\<lparr>watchers := rm_modify (watchers w) p f\<rparr>"
    using Some by (simp add: watchLink_def f_def)
  from Some obtain u where m: "map_of (watchers w) (toString p) = Some (u, entry)"
    by (auto simp: rm_get_def)
  then have mem: "(toString p, u, entry) \<in> set (watchers w)"
    by (simp add: wellKeyed_map_of[OF wk])
  have uniq: "\<And>x. x \<in> set (watchers w) \<Longrightarrow> fst x = toString p \<Longrightarrow> x = (toString p, u, entry)"
    using m wellKeyed_map_of[OF wk] by (metis option.inject prod.collapse)
  have wv: "watcherOf (toString p, u, v) = watcherOf (toString p, u, entry)"
    by (simp add: watcherOf_def v_def f_def)
  note old = accountedD[OF acc]
  have S: "set (watchers (watchLink d w p)) =
      {x \<in> set (watchers w). fst x \<noteq> toString p} \<union> {(toString p, u, v)}"
    unfolding w' using set_rm_modify[OF wk m, of f] by (simp add: v_def)
  have other: "startedWatchers (watchLink d w p) = startedWatchers w"
      "disposedWatchers (watchLink d w p) = disposedWatchers w"
    by (simp_all add: w')
  show ?thesis
  proof (rule accountedI; unfold other)
    fix x assume "x \<in> set (watchers (watchLink d w p))"
    then have "x = (toString p, u, v) \<or> x \<in> set (watchers w)" unfolding S by auto
    then show "watcherOf x < length (startedWatchers w)
       \<and> toString (startedWatchers w ! watcherOf x) = fst x
       \<and> watcherOf x \<notin> set (disposedWatchers w)"
    proof
      assume x: "x = (toString p, u, v)"
      from old(1)[OF mem] show ?thesis by (simp add: x wv)
    next
      assume "x \<in> set (watchers w)"
      from old(1)[OF this] show ?thesis .
    qed
  next
    fix i assume "i \<in> set (disposedWatchers w)"
    then show "i < length (startedWatchers w)" by (rule old(2))
  next
    fix i assume "i < length (startedWatchers w)"
    from old(3)[OF this] show "i \<in> set (disposedWatchers w)
        \<or> i \<in> watcherOf ` set (watchers (watchLink d w p))"
    proof
      assume "i \<in> set (disposedWatchers w)" then show ?thesis by simp
    next
      assume "i \<in> watcherOf ` set (watchers w)"
      then obtain x where x: "x \<in> set (watchers w)" "i = watcherOf x" by auto
      show ?thesis
      proof (cases "fst x = toString p")
        case True
        with uniq[OF x(1)] x(2) wv have "i = watcherOf (toString p, u, v)" by simp
        then show ?thesis unfolding S by blast
      next
        case False
        with x show ?thesis unfolding S by blast
      qed
    qed
  qed
qed

lemma accounted_watchLinks:
  "wellKeyed (watchers w) \<Longrightarrow> accounted w \<Longrightarrow> accounted (foldl (watchLink d) w ps)"
  by (induction ps arbitrary: w) (simp_all add: accounted_watchLink watchLink_wellKeyed)

lemma wellKeyed_same_key:
  assumes "wellKeyed W" "x \<in> set W" "y \<in> set W" "fst x = fst y"
  shows "x = y"
proof -
  have "map_of W (fst x) = Some (snd x)" "map_of W (fst x) = Some (snd y)"
    using assms wellKeyed_map_of[OF assms(1), of "fst x"] by (metis prod.collapse)+
  then show ?thesis using assms(4) by (simp add: prod_eq_iff)
qed

lemma accounted_cleanUp:
  assumes wk: "wellKeyed (watchers w)" and acc: "accounted w"
  shows "accounted (foldl cleanUp w (watchers w))"
proof -
  define w' where "w' = foldl cleanUp w (watchers w)"
  have W': "watchers w' = filter nonEmpty (watchers w)"
    unfolding w'_def cleanUp_all[OF wk refl] nonEmpty_def[abs_def] ..
  have st: "startedWatchers w' = startedWatchers w"
    unfolding w'_def by (rule cleanUp_other)
  have di: "disposedWatchers w' =
      disposedWatchers w @ map watcherOf (filter (\<lambda>x. \<not> nonEmpty x) (watchers w))"
    unfolding w'_def cleanUp_other nonEmpty_def[abs_def] watcherOf_def[abs_def] by simp
  note old = accountedD[OF acc]
  have "accounted w'"
  proof (rule accountedI; unfold st)
    fix x assume "x \<in> set (watchers w')"
    then have x: "x \<in> set (watchers w)" "nonEmpty x" by (simp_all add: W')
    have "watcherOf x \<noteq> watcherOf y" if y: "y \<in> set (watchers w)" "\<not> nonEmpty y" for y
    proof
      assume "watcherOf x = watcherOf y"
      with old(1)[OF x(1)] old(1)[OF y(1)] have "fst x = fst y" by simp
      from wellKeyed_same_key[OF wk x(1) y(1) this] x(2) y(2) show False by simp
    qed
    then have "watcherOf x \<notin> set (disposedWatchers w')"
      using old(1)[OF x(1)] by (auto simp: di)
    with old(1)[OF x(1)] show "watcherOf x < length (startedWatchers w)
       \<and> toString (startedWatchers w ! watcherOf x) = fst x
       \<and> watcherOf x \<notin> set (disposedWatchers w')" by simp
  next
    fix i assume "i \<in> set (disposedWatchers w')"
    then show "i < length (startedWatchers w)"
      using old(1) old(2) by (auto simp: di)
  next
    fix i assume "i < length (startedWatchers w)"
    from old(3)[OF this] show "i \<in> set (disposedWatchers w') \<or> i \<in> watcherOf ` set (watchers w')"
      by (auto simp: di W')
  qed
  then show ?thesis by (simp add: w'_def)
qed

lemma updateLinks_accounted:
  assumes wk: "wellKeyed (watchers w)" and acc: "accounted w"
  shows "accounted (updateLinksForDocument d links w)"
proof -
  define w1 where "w1 = w\<lparr>watchers := map (forgetDocument d) (watchers w)\<rparr>"
  define w2 where "w2 = foldl (watchLink d) w1
        (new_Set (map (\<lambda>l. path (href l)) (filter (\<lambda>l. isInternal (href l)) links)))"
  have wk1: "wellKeyed (watchers w1)" by (simp add: w1_def forget_wellKeyed wk)
  have a1: "accounted w1" unfolding w1_def by (rule accounted_forget[OF acc])
  have wk2: "wellKeyed (watchers w2)" unfolding w2_def by (rule watchLinks_wellKeyed[OF wk1])
  have a2: "accounted w2" unfolding w2_def by (rule accounted_watchLinks[OF wk1 a1])
  have "updateLinksForDocument d links w = foldl cleanUp w2 (watchers w2)"
    by (simp add: updateLinksForDocument_def Let_def w2_def w1_def)
  then show ?thesis using accounted_cleanUp[OF wk2 a2] by simp
qed

lemma lastReported_snoc:
  "lastReported (calls @ [UpdateLinks d links]) = (lastReported calls)(toString d := internalPaths links)"
  "lastReported (calls @ [DeleteDocument d]) = (lastReported calls)(toString d := {})"
  by (simp_all add: lastReported_def)

lemma internalPaths_Nil: "internalPaths [] = {}"
  by (simp add: internalPaths_def)

lemma linkwatcher_run_inv:
  "wellKeyed (watchers (linkwatcher_run calls))
   \<and> accounted (linkwatcher_run calls)
   \<and> (\<forall>q. docsOf (watchers (linkwatcher_run calls)) q = {d. q \<in> lastReported calls d})"
proof (induction calls rule: rev_induct)
  case Nil
  show ?case
    by (simp add: linkwatcher_run_def newLinkWatcher_def wellKeyed_def accounted_def docsOf_def
        lastReported_def)
next
  case (snoc call calls)
  define w where "w = linkwatcher_run calls"
  from snoc.IH have wk: "wellKeyed (watchers w)" and acc: "accounted w"
    and docs: "\<And>q. docsOf (watchers w) q = {d. q \<in> lastReported calls d}"
    by (simp_all add: w_def)
  have step: "\<exists>d links. linkwatcher_run (calls @ [call]) = updateLinksForDocument d links w
      \<and> lastReported (calls @ [call]) = (lastReported calls)(toString d := internalPaths links)"
  proof (cases call)
    case (UpdateLinks d links)
    then show ?thesis
      by (auto simp: linkwatcher_run_def w_def lastReported_snoc)
  next
    case (DeleteDocument d)
    have "linkwatcher_run (calls @ [call]) = updateLinksForDocument d [] w
      \<and> lastReported (calls @ [call]) = (lastReported calls)(toString d := internalPaths [])"
      by (simp add: DeleteDocument linkwatcher_run_def w_def deleteDocument_def lastReported_snoc
        internalPaths_Nil)
    then show ?thesis by blast
  qed
  then obtain d links where run: "linkwatcher_run (calls @ [call]) = updateLinksForDocument d links w"
    and rep: "lastReported (calls @ [call]) = (lastReported calls)(toString d := internalPaths links)"
    by blast
  show ?case
    unfolding run rep
    using updateLinks_inv(1)[OF wk, of d links] updateLinks_accounted[OF wk acc, of d links]
    by (auto simp: updateLinks_inv(2)[OF wk] docs)
qed

lemma linkwatcher_run_nonEmpty: "\<forall>x \<in> set (watchers (linkwatcher_run calls)). nonEmpty x"
proof (cases calls rule: rev_cases)
  case Nil
  then show ?thesis by (simp add: linkwatcher_run_def newLinkWatcher_def)
next
  case (snoc calls' call)
  define w where "w = linkwatcher_run calls'"
  have wk: "wellKeyed (watchers w)" using linkwatcher_run_inv[of calls'] by (simp add: w_def)
  have "\<exists>d links. linkwatcher_run calls = updateLinksForDocument d links w"
    unfolding snoc by (cases call) (auto simp: linkwatcher_run_def w_def deleteDocument_def)
  then show ?thesis using updateLinks_inv(4)[OF wk] by auto
qed

lemma keyset_docsOf:
  assumes "wellKeyed W" "\<forall>x \<in> set W. nonEmpty x"
  shows "rm_keyset W = {q. docsOf W q \<noteq> {}}"
proof (intro set_eqI iffI)
  fix q assume "q \<in> rm_keyset W"
  then obtain u e where m: "(q, u, e) \<in> set W" by (auto simp: rm_keyset_def)
  with assms(2) have "rm_keyset (documents e) \<noteq> {}" by (auto simp: nonEmpty_def rm_size_keyset)
  with docsOf_empty_iff[OF assms(1) m] show "q \<in> {q. docsOf W q \<noteq> {}}" by simp
next
  fix q assume "q \<in> {q. docsOf W q \<noteq> {}}"
  then show "q \<in> rm_keyset W" using docsOf_absent[of q W] by auto
qed

text \<open>
  Claim C10. After any sequence of \<open>updateLinksForDocument\<close> and \<open>deleteDocument\<close> calls
  on a new link watcher, every retained entry has at least one referencing document;
  the watched paths are exactly the paths of the internal links last reported, over
  all documents; the documents of the entry of a path are exactly the documents whose
  last report has that path; and a watcher that was started is disposed exactly when no
  retained entry holds it, so the entries that lost their last document were disposed
  and removed.
\<close>

theorem linkwatcher_watches_reported_links:
  "(\<forall>entry \<in> set (rm_values (watchers (linkwatcher_run calls))). rm_size (documents entry) \<noteq> 0)
   \<and> rm_keyset (watchers (linkwatcher_run calls)) = (\<Union>d. lastReported calls d)
   \<and> (\<forall>p entry. rm_get (watchers (linkwatcher_run calls)) p = Some entry \<longrightarrow>
         rm_keyset (documents entry) = {d. toString p \<in> lastReported calls d})
   \<and> (\<forall>i < length (startedWatchers (linkwatcher_run calls)).
         (i \<in> set (disposedWatchers (linkwatcher_run calls)))
       = (i \<notin> watcher ` set (rm_values (watchers (linkwatcher_run calls)))))"
proof -
  define w where "w = linkwatcher_run calls"
  have wk: "wellKeyed (watchers w)" and acc: "accounted w"
    and docs: "\<And>q. docsOf (watchers w) q = {d. q \<in> lastReported calls d}"
    using linkwatcher_run_inv[of calls] by (simp_all add: w_def)
  have ne: "\<forall>x \<in> set (watchers w). nonEmpty x"
    unfolding w_def by (rule linkwatcher_run_nonEmpty)
  have a: "\<forall>entry \<in> set (rm_values (watchers w)). rm_size (documents entry) \<noteq> 0"
    using ne by (auto simp: rm_values_def nonEmpty_def)
  have b: "rm_keyset (watchers w) = (\<Union>d. lastReported calls d)"
    unfolding keyset_docsOf[OF wk ne] docs by auto
  have c: "\<forall>p entry. rm_get (watchers w) p = Some entry \<longrightarrow>
         rm_keyset (documents entry) = {d. toString p \<in> lastReported calls d}"
  proof (intro allI impI)
    fix p entry assume "rm_get (watchers w) p = Some entry"
    then have "docsOf (watchers w) (toString p) = rm_keyset (documents entry)"
      by (auto simp: rm_get_def docsOf_def)
    then show "rm_keyset (documents entry) = {d. toString p \<in> lastReported calls d}"
      by (simp add: docs)
  qed
  have img: "watcher ` set (rm_values (watchers w)) = watcherOf ` set (watchers w)"
    by (auto simp: rm_values_def watcherOf_def image_iff)
  have d: "\<forall>i < length (startedWatchers w).
         (i \<in> set (disposedWatchers w)) = (i \<notin> watcher ` set (rm_values (watchers w)))"
    unfolding img using accountedD[OF acc] by blast
  from a b c d show ?thesis unfolding w_def by blast
qed

theorem linkwatcher_watches_reported_links_witness:
  "linkwatcher_run
     [UpdateLinks (Uri 1 ''file:///a.md'')
        [\<lparr>source = \<lparr>linkText = ''b.md'', hrefRange = ((0, 1), (0, 5)), fragmentRange = None,
             pathText = ''b.md''\<rparr>, href = InternalHref (Uri 2 ''file:///b.md'') ''''\<rparr>,
         \<lparr>source = \<lparr>linkText = ''c.md'', hrefRange = ((1, 1), (1, 5)), fragmentRange = None,
             pathText = ''c.md''\<rparr>, href = InternalHref (Uri 3 ''file:///c.md'') ''''\<rparr>],
      UpdateLinks (Uri 1 ''file:///a.md'')
        [\<lparr>source = \<lparr>linkText = ''b.md'', hrefRange = ((0, 1), (0, 5)), fragmentRange = None,
             pathText = ''b.md''\<rparr>, href = InternalHref (Uri 4 ''file:///b.md'') ''''\<rparr>]] =
     \<lparr>watchers =
        [(''file:///b.md'', Uri 2 ''file:///b.md'',
          \<lparr>watcher = 0,
           documents = [(''file:///a.md'', Uri 1 ''file:///a.md'', Uri 1 ''file:///a.md'')]\<rparr>)],
      startedWatchers = [Uri 2 ''file:///b.md'', Uri 3 ''file:///c.md''],
      disposedWatchers = [1]\<rparr>"
  using linkwatcher_watches_reported_links
    [of "[UpdateLinks (Uri 1 ''file:///a.md'')
        [\<lparr>source = \<lparr>linkText = ''b.md'', hrefRange = ((0, 1), (0, 5)), fragmentRange = None,
             pathText = ''b.md''\<rparr>, href = InternalHref (Uri 2 ''file:///b.md'') ''''\<rparr>,
         \<lparr>source = \<lparr>linkText = ''c.md'', hrefRange = ((1, 1), (1, 5)), fragmentRange = None,
             pathText = ''c.md''\<rparr>, href = InternalHref (Uri 3 ''file:///c.md'') ''''\<rparr>],
      UpdateLinks (Uri 1 ''file:///a.md'')
        [\<lparr>source = \<lparr>linkText = ''b.md'', hrefRange = ((0, 1), (0, 5)), fragmentRange = None,
             pathText = ''b.md''\<rparr>, href = InternalHref (Uri 4 ''file:///b.md'') ''''\<rparr>]]"]
  by (simp add: linkwatcher_run_def newLinkWatcher_def updateLinksForDocument_def new_Set_def
      set_add_def watchLink_def startWatching_def cleanUp_def forgetDocument_def rm_get_def
      rm_set_def rm_delete_def rm_modify_def rm_size_def Let_def AList.delete_eq)

section \<open>Properties of the diagnostic computer\<close>


lemma array_some_total:
  "\<forall>x \<in> set xs. \<exists>b. f x = Inr b \<Longrightarrow> \<exists>b. array_some f xs = Inr b"
  by (induction xs) (auto split: sum.splits)


lemma isIgnoredLink_total:
  "[] \<notin> set (ignoreLinks options) \<Longrightarrow> \<exists>b. isIgnoredLink host options t = Inr b"
  unfolding isIgnoredLink_def
  by (rule array_some_total) (auto simp: picomatch_isMatch_def)



lemma for_each_total:
  "\<forall>x \<in> set xs. \<exists>ys. body x = Inr ys \<Longrightarrow> \<exists>ds. for_each body xs = Inr ds"
  by (induction xs) (auto split: sum.splits)




lemma pathDiagnostics_total:
  assumes "[] \<notin> set (ignoreLinks options)"
  shows "\<exists>ds. pathDiagnostics host options sev p out = Inr ds"
  unfolding pathDiagnostics_def
proof (intro for_each_total ballI, goal_cases)
  case (1 l)
  from isIgnoredLink_total[OF assms, of host "pathText (fst l)"]
  obtain b where "isIgnoredLink host options (pathText (fst l)) = Inr b" by blast
  then show ?case by simp
qed

lemma fragmentDiagnostics_total:
  assumes "[] \<notin> set (ignoreLinks options)"
  shows "\<exists>ds. fragmentDiagnostics host options sev hrefDoc out = Inr ds"
proof -
  have "\<exists>ds. for_each
                (\<lambda>l. if \<not> tocLookup host hrefDoc (snd l)
                      then (case isIgnoredLink host options (pathText (fst l)) of
                              Inl e \<Rightarrow> Inl e
                            | Inr ignoredPath \<Rightarrow>
                                if \<not> ignoredPath
                                then (case isIgnoredLink host options (linkText (fst l)) of
                                        Inl e \<Rightarrow> Inl e
                                      | Inr ignoredText \<Rightarrow>
                                          Inr (if \<not> ignoredText
                                               then [fragmentDiagnostic host sev l]
                                               else []))
                                else Inr [])
                      else Inr []) fragmentLinks = Inr ds" for fragmentLinks
  proof (intro for_each_total ballI, goal_cases)
    case (1 l)
    from isIgnoredLink_total[OF assms, of host "pathText (fst l)"]
    obtain b where b: "isIgnoredLink host options (pathText (fst l)) = Inr b" by blast
    from isIgnoredLink_total[OF assms, of host "linkText (fst l)"]
    obtain c where c: "isIgnoredLink host options (linkText (fst l)) = Inr c" by blast
    show ?case by (simp add: b c)
  qed
  then show ?thesis by (simp add: fragmentDiagnostics_def Let_def)
qed

lemma validatePath_total:
  assumes "[] \<notin> set (ignoreLinks options)"
  shows "\<exists>ds. validatePath host options token sev fsev e = Inr ds"
  using pathDiagnostics_total[OF assms] fragmentDiagnostics_total[OF assms]
  by (auto simp: validatePath_def split: option.splits prod.splits)

lemma validateFileLinksPass_total:
  assumes "[] \<notin> set (ignoreLinks options)"
  shows "\<exists>ds. validateFileLinksPass host options ls token = Inr ds"
proof (cases "toSeverity (validateFileLinks options)")
  case None
  then show ?thesis by (simp add: validateFileLinksPass_def)
next
  case (Some sev)
  have "\<exists>ds. for_each (validatePath host options token sev fsev) S = Inr ds" for fsev S
    by (intro for_each_total ballI validatePath_total[OF assms])
  then show ?thesis using Some by (simp add: validateFileLinksPass_def Let_def)
qed

lemma validateFragmentLinksPass_total:
  assumes "[] \<notin> set (ignoreLinks options)"
  shows "\<exists>ds. validateFragmentLinksPass host doc options ls token = Inr ds"
proof (cases "toSeverity (validateFragmentLinks options)")
  case None
  then show ?thesis by (simp add: validateFragmentLinksPass_def)
next
  case (Some sev)
  have "\<exists>ds. for_each
                 (\<lambda>l. case href l of
                         InternalHref p f \<Rightarrow>
                           if startsWith (linkText (source l)) ''#''
                              \<and> toString p = toString (uri doc)
                              \<and> f \<noteq> []
                              \<and> \<not> tocLookup host doc f
                           then (case isIgnoredLink host options (linkText (source l)) of
                                   Inl e \<Rightarrow> Inl e
                                 | Inr ignored \<Rightarrow>
                                     Inr (if \<not> ignored
                                          then [\<lparr>range = hrefRange (source l),
                                                  message = InvalidHeaderLink f,
                                                  severity = sev, link = Some (linkText (source l))\<rparr>]
                                          else []))
                           else Inr []
                       | ExternalHref u \<Rightarrow> Inr []
                       | ReferenceHref n \<Rightarrow> Inr []) ls = Inr ds"
  proof (intro for_each_total ballI, goal_cases)
    case (1 l)
    from isIgnoredLink_total[OF assms, of host "linkText (source l)"]
    obtain b where b: "isIgnoredLink host options (linkText (source l)) = Inr b" by blast
    show ?case by (cases "href l") (simp_all add: b)
  qed
  then show ?thesis using Some by (simp add: validateFragmentLinksPass_def)
qed
























section \<open>Properties of the diagnostic manager\<close>

lemma distinct_set_add: "distinct s \<Longrightarrow> distinct (set_add s x)"
  by (simp add: set_add_def)

lemma delayer_trigger_fields:
  "defaultDelay (snd (delayer_trigger t d)) = defaultDelay d"
  "timeout (snd (delayer_trigger t d)) = Some (defaultDelay d)"
  "task (snd (delayer_trigger t d)) = Some t"
  by (simp_all add: delayer_trigger_def Let_def split: option.splits prod.splits)

lemma triggerDiagnostics_fields:
  "pendingDiagnostics (triggerDiagnostics r m) = set_add (pendingDiagnostics m) r"
  "defaultDelay (diagnosticDelayer (triggerDiagnostics r m)) = defaultDelay (diagnosticDelayer m)"
  "timeout (diagnosticDelayer (triggerDiagnostics r m)) = Some (defaultDelay (diagnosticDelayer m))"
  "task (diagnosticDelayer (triggerDiagnostics r m)) = Some RecomputePendingDiagnostics"
  "linkWatcher (triggerDiagnostics r m) = linkWatcher m"
  "inFlightDiagnostics (triggerDiagnostics r m) = cancel r (inFlightDiagnostics m)"
proof -
  obtain p d where dt: "delayer_trigger RecomputePendingDiagnostics
      (diagnosticDelayer (m\<lparr>inFlightDiagnostics := cancel r (inFlightDiagnostics m),
          pendingDiagnostics := set_add (pendingDiagnostics m) r\<rparr>)) = (p, d)"
    by (cases "delayer_trigger RecomputePendingDiagnostics
      (diagnosticDelayer (m\<lparr>inFlightDiagnostics := cancel r (inFlightDiagnostics m),
          pendingDiagnostics := set_add (pendingDiagnostics m) r\<rparr>))")
  have m': "triggerDiagnostics r m =
      m\<lparr>inFlightDiagnostics := cancel r (inFlightDiagnostics m),
        pendingDiagnostics := set_add (pendingDiagnostics m) r,
        diagnosticDelayer := d,
        reporter := signalTriggered r p (reporter m)\<rparr>"
    using dt by (simp add: triggerDiagnostics_def Let_def)
  have d: "d = snd (delayer_trigger RecomputePendingDiagnostics (diagnosticDelayer m))"
    using dt by simp
  show "pendingDiagnostics (triggerDiagnostics r m) = set_add (pendingDiagnostics m) r"
    "defaultDelay (diagnosticDelayer (triggerDiagnostics r m)) = defaultDelay (diagnosticDelayer m)"
    "timeout (diagnosticDelayer (triggerDiagnostics r m)) = Some (defaultDelay (diagnosticDelayer m))"
    "task (diagnosticDelayer (triggerDiagnostics r m)) = Some RecomputePendingDiagnostics"
    "linkWatcher (triggerDiagnostics r m) = linkWatcher m"
    "inFlightDiagnostics (triggerDiagnostics r m) = cancel r (inFlightDiagnostics m)"
    by (simp_all add: m' d delayer_trigger_fields)
qed

lemma recomputeResources_fields:
  "pendingDiagnostics (fst (foldl (recomputeResource g) (m, st) rs)) = pendingDiagnostics m"
  "diagnosticDelayer (fst (foldl (recomputeResource g) (m, st) rs)) = diagnosticDelayer m"
  "linkWatcher (fst (foldl (recomputeResource g) (m, st) rs)) = linkWatcher m"
  "map fst (snd (foldl (recomputeResource g) (m, st) rs)) = map fst st @ filter (hasDocument g) rs"
  by (induction rs arbitrary: m st)
     (auto simp: recomputeResource_def hasDocument_def split: option.splits prod.splits)

lemma recomputeResources_docs:
  "(\<And>r doc token. (r, doc, token) \<in> set st \<Longrightarrow> g r = Some doc) \<Longrightarrow>
   (r, doc, token) \<in> set (snd (foldl (recomputeResource g) (m, st) rs)) \<Longrightarrow> g r = Some doc"
proof (induction rs arbitrary: m st)
  case Nil
  then show ?case by simp
next
  case (Cons x rs)
  obtain m' st' where step: "recomputeResource g (m, st) x = (m', st')"
    by (cases "recomputeResource g (m, st) x")
  have st': "g r = Some doc" if "(r, doc, token) \<in> set st'" for r doc token
    using that Cons.prems(1) step
    by (auto simp: recomputeResource_def split: option.splits prod.splits)
  from Cons.prems(2) have "(r, doc, token) \<in> set (snd (foldl (recomputeResource g) (m', st') rs))"
    by (simp add: step)
  from Cons.IH[OF st' this] show ?case .
qed

lemma recomputePendingDiagnostics_fields:
  "pendingDiagnostics (fst (recomputePendingDiagnostics g m)) = []"
  "diagnosticDelayer (fst (recomputePendingDiagnostics g m)) = diagnosticDelayer m"
  "map fst (snd (recomputePendingDiagnostics g m)) = filter (hasDocument g) (pendingDiagnostics m)"
  "(r, doc, token) \<in> set (snd (recomputePendingDiagnostics g m)) \<Longrightarrow> g r = Some doc"
  using recomputeResources_docs[of "[]" g r doc token "m\<lparr>pendingDiagnostics := []\<rparr>" "pendingDiagnostics m"]
  by (simp_all add: recomputePendingDiagnostics_def Let_def recomputeResources_fields)

lemma count_list_filter_distinct:
  "distinct xs \<Longrightarrow> count_list (filter P xs) x = (if x \<in> set xs \<and> P x then 1 else 0)"
  by (induction xs) auto

lemma length_filter_key_distinct:
  "distinct (map f xs) \<Longrightarrow> length (filter (\<lambda>x. f x = k) xs) = (if k \<in> f ` set xs then 1 else 0)"
  by (induction xs) auto

lemma timerFired_unarmed:
  "timeout (diagnosticDelayer m) = None \<Longrightarrow> timerFired g m = (m, [])"
  by (simp add: timerFired_def delayer_timeout_def)

lemma timerFired_armed:
  assumes "timeout (diagnosticDelayer m) \<noteq> None" "task (diagnosticDelayer m) = Some RecomputePendingDiagnostics"
  shows "timerFired g m =
     recomputePendingDiagnostics g
       (m\<lparr>diagnosticDelayer := (diagnosticDelayer m)\<lparr>timeout := None, completionPromise := None, task := None\<rparr>\<rparr>)"
  using assms by (auto simp: timerFired_def delayer_timeout_def)

lemma manager_inv_new: "manager_inv delay (newDiagnosticManager delay)"
  by (simp add: manager_inv_def newDiagnosticManager_def newDelayer_def)

lemma manager_inv_trigger: "manager_inv delay m \<Longrightarrow> manager_inv delay (triggerDiagnostics r m)"
  by (simp add: manager_inv_def triggerDiagnostics_fields distinct_set_add)

lemma manager_inv_timer:
  assumes "manager_inv delay m"
  shows "manager_inv delay (fst (timerFired g m))"
proof (cases "timeout (diagnosticDelayer m) = None")
  case True
  then show ?thesis using assms by (simp add: timerFired_unarmed)
next
  case False
  with assms have t: "task (diagnosticDelayer m) = Some RecomputePendingDiagnostics"
    by (simp add: manager_inv_def)
  show ?thesis
    using assms unfolding timerFired_armed[OF False t] manager_inv_def
    by (simp add: recomputePendingDiagnostics_fields)
qed

lemma manager_inv_computed: "manager_inv delay m \<Longrightarrow> manager_inv delay (computed g h t doc c tok m)"
  by (auto simp: manager_inv_def computed_def Let_def split: prod.splits sum.splits)

lemma manager_inv_retriggers:
  "manager_inv delay m \<Longrightarrow> manager_inv delay (foldl (retriggerIfOpen f tds) m ds)"
proof (induction ds arbitrary: m)
  case Nil
  then show ?case by simp
next
  case (Cons d ds)
  have "manager_inv delay (retriggerIfOpen f tds m d)"
    using Cons.prems by (auto simp: retriggerIfOpen_def manager_inv_trigger split: option.splits)
  from Cons.IH[OF this] show ?case by simp
qed

lemma manager_inv_linked: "manager_inv delay m \<Longrightarrow> manager_inv delay (linkedFileChanged f tds r m)"
  by (auto simp: linkedFileChanged_def onDidChangeLinkedToFile_def manager_inv_retriggers
      split: option.splits)

lemma manager_inv_settled:
  "manager_inv delay m \<Longrightarrow> manager_inv delay (m\<lparr>reporter := recomputeSettled p (reporter m)\<rparr>)"
  by (auto simp: manager_inv_def)

lemma manager_inv_close: "manager_inv delay m \<Longrightarrow> manager_inv delay (onDidCloseTextDocument r m)"
  by (auto simp: manager_inv_def onDidCloseTextDocument_def distinct_removeAll)

lemma manager_inv_rebuild: "manager_inv delay m \<Longrightarrow> manager_inv delay (rebuild_clear m)"
  by (auto simp: manager_inv_def rebuild_clear_def)

lemma manager_run_inv: "manager_inv delay (manager_run delay events)"
proof (induction events rule: rev_induct)
  case Nil
  show ?case by (simp add: manager_run_def manager_inv_new)
next
  case (snoc e events)
  have run: "\<And>x. manager_run delay (events @ [x]) = manager_step (manager_run delay events) x"
    by (simp add: manager_run_def)
  show ?case
    by (cases e)
       (simp_all add: run manager_inv_trigger manager_inv_timer manager_inv_close
          manager_inv_rebuild manager_inv_computed manager_inv_linked manager_inv_settled snoc.IH)
qed

text \<open>
  Claim C2, as amended. Let \<open>m\<close> be a manager after any events, built with the default
  delay or another. Its delayer has that delay, 300 by default; the pending set holds
  no \<open>Uri\<close> object twice; while one is pending, the timer of the delayer is armed
  with the delay and the task is the recomputation. \<open>triggerDiagnostics\<close> adds the
  \<open>Uri\<close> object to the pending set, where it then is exactly once, and arms the timer with
  the delay for the recomputation. When the armed timer fires, the run clears the pending
  set and starts the computations of the elements of the snapshot that have a
  markdown document in the workspace, in the order of the snapshot: one computation
  for each such element, none for one without a document, each on the document
  the workspace gave for it. When no two \<open>Uri\<close> objects of the pending set have the same
  string form, this is exactly one computation for each resource of the snapshot that
  has a document and none for any other resource.
\<close>

theorem debounced_batched_recomputation:
  assumes "m = manager_run delay events"
  shows "defaultDelay (diagnosticDelayer m) = (case delay of None \<Rightarrow> 300 | Some d \<Rightarrow> d)
    \<and> distinct (pendingDiagnostics m)
    \<and> (pendingDiagnostics m \<noteq> [] \<longrightarrow>
          timeout (diagnosticDelayer m) = Some (defaultDelay (diagnosticDelayer m))
        \<and> task (diagnosticDelayer m) = Some RecomputePendingDiagnostics)
    \<and> pendingDiagnostics (triggerDiagnostics r m) = set_add (pendingDiagnostics m) r
    \<and> count_list (pendingDiagnostics (triggerDiagnostics r m)) r = 1
    \<and> timeout (diagnosticDelayer (triggerDiagnostics r m)) = Some (defaultDelay (diagnosticDelayer m))
    \<and> task (diagnosticDelayer (triggerDiagnostics r m)) = Some RecomputePendingDiagnostics
    \<and> (timeout (diagnosticDelayer m) \<noteq> None \<longrightarrow>
          timerFired g m = recomputePendingDiagnostics g
            (m\<lparr>diagnosticDelayer :=
                 (diagnosticDelayer m)\<lparr>timeout := None, completionPromise := None, task := None\<rparr>\<rparr>)
        \<and> pendingDiagnostics (fst (timerFired g m)) = []
        \<and> timeout (diagnosticDelayer (fst (timerFired g m))) = None
        \<and> map fst (snd (timerFired g m)) = filter (hasDocument g) (pendingDiagnostics m)
        \<and> (\<forall>x. count_list (map fst (snd (timerFired g m))) x =
                (if x \<in> set (pendingDiagnostics m) \<and> hasDocument g x then 1 else 0))
        \<and> (\<forall>x doc token. (x, doc, token) \<in> set (snd (timerFired g m)) \<longrightarrow> g x = Some doc)
        \<and> (distinct (map toString (pendingDiagnostics m)) \<longrightarrow>
             (\<forall>k. length (filter (\<lambda>c. toString (fst c) = k) (snd (timerFired g m))) =
                   (if \<exists>x \<in> set (pendingDiagnostics m). toString x = k \<and> hasDocument g x
                    then 1 else 0))))"
proof -
  have inv: "manager_inv delay m" unfolding assms by (rule manager_run_inv)
  then have a: "defaultDelay (diagnosticDelayer m) = (case delay of None \<Rightarrow> 300 | Some d \<Rightarrow> d)"
    and b: "distinct (pendingDiagnostics m)"
    and c: "pendingDiagnostics m \<noteq> [] \<longrightarrow>
          timeout (diagnosticDelayer m) = Some (defaultDelay (diagnosticDelayer m))
        \<and> task (diagnosticDelayer m) = Some RecomputePendingDiagnostics"
    by (auto simp: manager_inv_def)
  have d: "pendingDiagnostics (triggerDiagnostics r m) = set_add (pendingDiagnostics m) r"
    "timeout (diagnosticDelayer (triggerDiagnostics r m)) = Some (defaultDelay (diagnosticDelayer m))"
    "task (diagnosticDelayer (triggerDiagnostics r m)) = Some RecomputePendingDiagnostics"
    by (simp_all add: triggerDiagnostics_fields)
  have "distinct (set_add (pendingDiagnostics m) r)" "r \<in> set (set_add (pendingDiagnostics m) r)"
    using b by (simp_all add: distinct_set_add set_set_add)
  then have e: "count_list (pendingDiagnostics (triggerDiagnostics r m)) r = 1"
    unfolding d(1)
    using count_list_filter_distinct[of "set_add (pendingDiagnostics m) r" "\<lambda>x. True" r]
    by simp
  have f: "timerFired g m = recomputePendingDiagnostics g
            (m\<lparr>diagnosticDelayer :=
                 (diagnosticDelayer m)\<lparr>timeout := None, completionPromise := None, task := None\<rparr>\<rparr>)
        \<and> pendingDiagnostics (fst (timerFired g m)) = []
        \<and> timeout (diagnosticDelayer (fst (timerFired g m))) = None
        \<and> map fst (snd (timerFired g m)) = filter (hasDocument g) (pendingDiagnostics m)
        \<and> (\<forall>x. count_list (map fst (snd (timerFired g m))) x =
                (if x \<in> set (pendingDiagnostics m) \<and> hasDocument g x then 1 else 0))
        \<and> (\<forall>x doc token. (x, doc, token) \<in> set (snd (timerFired g m)) \<longrightarrow> g x = Some doc)"
    if armed: "timeout (diagnosticDelayer m) \<noteq> None"
  proof -
    from inv armed have t: "task (diagnosticDelayer m) = Some RecomputePendingDiagnostics"
      by (simp add: manager_inv_def)
    note tf = timerFired_armed[OF armed t, of g]
    show ?thesis
      unfolding tf
      using recomputePendingDiagnostics_fields(4)[of _ _ _ g]
      by (auto simp: recomputePendingDiagnostics_fields(1-3) count_list_filter_distinct[OF b])
  qed
  have h: "length (filter (\<lambda>c. toString (fst c) = k) (snd (timerFired g m))) =
             (if \<exists>x \<in> set (pendingDiagnostics m). toString x = k \<and> hasDocument g x then 1 else 0)"
    if armed: "timeout (diagnosticDelayer m) \<noteq> None"
      and apart: "distinct (map toString (pendingDiagnostics m))" for k
  proof -
    from f[OF armed] have started: "map fst (snd (timerFired g m)) =
        filter (hasDocument g) (pendingDiagnostics m)" by blast
    have "length (filter (\<lambda>c. toString (fst c) = k) (snd (timerFired g m))) =
        length (filter (\<lambda>x. toString x = k) (map fst (snd (timerFired g m))))"
      by (simp add: filter_map comp_def)
    also have "\<dots> = length (filter (\<lambda>x. toString x = k) (filter (hasDocument g) (pendingDiagnostics m)))"
      unfolding started ..
    also have "\<dots> = (if k \<in> toString ` set (filter (hasDocument g) (pendingDiagnostics m)) then 1 else 0)"
      by (rule length_filter_key_distinct) (rule distinct_map_filter[OF apart])
    also have "\<dots> = (if \<exists>x \<in> set (pendingDiagnostics m). toString x = k \<and> hasDocument g x then 1 else 0)"
      by auto
    finally show ?thesis .
  qed
  from a b c d e f h show ?thesis by blast
qed

theorem debounced_batched_recomputation_witness:
  "pendingDiagnostics (manager_run None
       [TriggerDiagnostics (Uri 1 ''file:///a.md''), TriggerDiagnostics (Uri 2 ''file:///b.md''),
        TriggerDiagnostics (Uri 1 ''file:///a.md'')])
     = [Uri 1 ''file:///a.md'', Uri 2 ''file:///b.md'']
   \<and> timeout (diagnosticDelayer (manager_run None
       [TriggerDiagnostics (Uri 1 ''file:///a.md''), TriggerDiagnostics (Uri 2 ''file:///b.md''),
        TriggerDiagnostics (Uri 1 ''file:///a.md'')])) = Some 300
   \<and> map fst (snd (timerFired (workspaceOf [''file:///a.md'']) (manager_run None
       [TriggerDiagnostics (Uri 1 ''file:///a.md''), TriggerDiagnostics (Uri 2 ''file:///b.md''),
        TriggerDiagnostics (Uri 1 ''file:///a.md'')])))
     = [Uri 1 ''file:///a.md'']
   \<and> pendingDiagnostics (fst (timerFired (workspaceOf [''file:///a.md'']) (manager_run None
       [TriggerDiagnostics (Uri 1 ''file:///a.md''), TriggerDiagnostics (Uri 2 ''file:///b.md''),
        TriggerDiagnostics (Uri 1 ''file:///a.md'')]))) = []
   \<and> length (filter (\<lambda>c. toString (fst c) = ''file:///a.md'')
        (snd (timerFired (workspaceOf [''file:///a.md'']) (manager_run None
       [TriggerDiagnostics (Uri 1 ''file:///a.md''), TriggerDiagnostics (Uri 2 ''file:///b.md''),
        TriggerDiagnostics (Uri 1 ''file:///a.md'')])))) = 1
   \<and> length (filter (\<lambda>c. toString (fst c) = ''file:///b.md'')
        (snd (timerFired (workspaceOf [''file:///a.md'']) (manager_run None
       [TriggerDiagnostics (Uri 1 ''file:///a.md''), TriggerDiagnostics (Uri 2 ''file:///b.md''),
        TriggerDiagnostics (Uri 1 ''file:///a.md'')])))) = 0"
proof -
  have run: "manager_run None
       [TriggerDiagnostics (Uri 1 ''file:///a.md''), TriggerDiagnostics (Uri 2 ''file:///b.md''),
        TriggerDiagnostics (Uri 1 ''file:///a.md'')] =
     \<lparr>diagnosticDelayer = \<lparr>defaultDelay = 300, timeout = Some 300,
          task = Some RecomputePendingDiagnostics, completionPromise = Some 0, promises = 1\<rparr>,
      pendingDiagnostics = [Uri 1 ''file:///a.md'', Uri 2 ''file:///b.md''],
      inFlightDiagnostics = newInflightDiagnosticRequests,
      linkWatcher = newLinkWatcher,
      reporter = \<lparr>pending = [(''file:///a.md'', Uri 1 ''file:///a.md'', 0),
                              (''file:///b.md'', Uri 2 ''file:///b.md'', 0)], collection = []\<rparr>\<rparr>"
    by (simp add: manager_run_def newDiagnosticManager_def newDelayer_def triggerDiagnostics_def
        delayer_trigger_def set_add_def signalTriggered_def cancel_def rm_get_def rm_set_def
        newInflightDiagnosticRequests_def Let_def)
  have armed: "timeout (diagnosticDelayer (manager_run None
       [TriggerDiagnostics (Uri 1 ''file:///a.md''), TriggerDiagnostics (Uri 2 ''file:///b.md''),
        TriggerDiagnostics (Uri 1 ''file:///a.md'')])) \<noteq> None"
    unfolding run by simp
  have apart: "distinct (map toString (pendingDiagnostics (manager_run None
       [TriggerDiagnostics (Uri 1 ''file:///a.md''), TriggerDiagnostics (Uri 2 ''file:///b.md''),
        TriggerDiagnostics (Uri 1 ''file:///a.md'')])))"
    unfolding run by simp
  from debounced_batched_recomputation[OF refl, of None
        "[TriggerDiagnostics (Uri 1 ''file:///a.md''), TriggerDiagnostics (Uri 2 ''file:///b.md''),
          TriggerDiagnostics (Uri 1 ''file:///a.md'')]" "Uri 1 ''file:///a.md''"
        "workspaceOf [''file:///a.md'']"] armed apart
  have "pendingDiagnostics (fst (timerFired (workspaceOf [''file:///a.md'']) (manager_run None
       [TriggerDiagnostics (Uri 1 ''file:///a.md''), TriggerDiagnostics (Uri 2 ''file:///b.md''),
        TriggerDiagnostics (Uri 1 ''file:///a.md'')]))) = []"
    and "map fst (snd (timerFired (workspaceOf [''file:///a.md'']) (manager_run None
       [TriggerDiagnostics (Uri 1 ''file:///a.md''), TriggerDiagnostics (Uri 2 ''file:///b.md''),
        TriggerDiagnostics (Uri 1 ''file:///a.md'')]))) =
      filter (hasDocument (workspaceOf [''file:///a.md''])) (pendingDiagnostics (manager_run None
       [TriggerDiagnostics (Uri 1 ''file:///a.md''), TriggerDiagnostics (Uri 2 ''file:///b.md''),
        TriggerDiagnostics (Uri 1 ''file:///a.md'')]))"
    and "\<And>k. length (filter (\<lambda>c. toString (fst c) = k)
        (snd (timerFired (workspaceOf [''file:///a.md'']) (manager_run None
       [TriggerDiagnostics (Uri 1 ''file:///a.md''), TriggerDiagnostics (Uri 2 ''file:///b.md''),
        TriggerDiagnostics (Uri 1 ''file:///a.md'')])))) =
      (if \<exists>x \<in> set (pendingDiagnostics (manager_run None
       [TriggerDiagnostics (Uri 1 ''file:///a.md''), TriggerDiagnostics (Uri 2 ''file:///b.md''),
        TriggerDiagnostics (Uri 1 ''file:///a.md'')])). toString x = k
            \<and> hasDocument (workspaceOf [''file:///a.md'']) x then 1 else 0)"
    by blast+
  then show ?thesis
    unfolding run by (simp add: hasDocument_def workspaceOf_def)
qed

text \<open>
  Claim C2 as stated fails for a pending resource that has no markdown document in the
  workspace: the resource is in the snapshot, and the run starts no computation. It
  also fails for a resource triggered through two \<open>Uri\<close> objects: both are in the
  snapshot, and the run starts two computations for the one resource.
\<close>

theorem not_recomputed_exactly_once:
  "Uri 2 ''file:///b.md''
     \<in> set (pendingDiagnostics (triggerDiagnostics (Uri 2 ''file:///b.md'') (newDiagnosticManager None)))
   \<and> snd (timerFired Map.empty (triggerDiagnostics (Uri 2 ''file:///b.md'') (newDiagnosticManager None))) = []
   \<and> pendingDiagnostics (manager_run None
        [TriggerDiagnostics (Uri 1 ''file:///a.md''), TriggerDiagnostics (Uri 2 ''file:///a.md'')])
      = [Uri 1 ''file:///a.md'', Uri 2 ''file:///a.md'']
   \<and> snd (timerFired (workspaceOf [''file:///a.md'']) (manager_run None
        [TriggerDiagnostics (Uri 1 ''file:///a.md''), TriggerDiagnostics (Uri 2 ''file:///a.md'')]))
      = [(Uri 1 ''file:///a.md'', \<lparr>uri = Uri 1 ''file:///a.md''\<rparr>, 0),
         (Uri 2 ''file:///a.md'', \<lparr>uri = Uri 2 ''file:///a.md''\<rparr>, 1)]"
  by (simp add: timerFired_def delayer_timeout_def triggerDiagnostics_def delayer_trigger_def
      newDiagnosticManager_def newDelayer_def set_add_def Let_def recomputePendingDiagnostics_def
      recomputeResource_def manager_run_def workspaceOf_def trigger_start_def record_request_def
      cancel_def rm_get_def rm_set_def rm_delete_def newInflightDiagnosticRequests_def
      signalTriggered_def AList.delete_eq)

lemma retriggers_linkWatcher:
  "linkWatcher (foldl (retriggerIfOpen f tds) m ds) = linkWatcher m"
  by (induction ds arbitrary: m)
     (auto simp: retriggerIfOpen_def triggerDiagnostics_fields split: option.splits)

lemma timerFired_linkWatcher: "linkWatcher (fst (timerFired g m)) = linkWatcher m"
  by (auto simp: timerFired_def delayer_timeout_def recomputePendingDiagnostics_def Let_def
      recomputeResources_fields split: option.splits DelayerTask.splits)

lemma manager_step_linkWatcher:
  "linkWatcher (manager_step m e) = foldl linkwatcher_step (linkWatcher m) (watcherCall e)"
  by (cases e)
     (auto simp: triggerDiagnostics_fields timerFired_linkWatcher computed_def watchedLinks_def
        Let_def linkedFileChanged_def onDidChangeLinkedToFile_def retriggers_linkWatcher
        onDidCloseTextDocument_def rebuild_clear_def split: prod.splits option.splits sum.splits)

lemma manager_run_linkWatcher:
  "linkWatcher (manager_run delay events) = linkwatcher_run (watcherCalls events)"
proof (induction events rule: rev_induct)
  case Nil
  show ?case
    by (simp add: manager_run_def watcherCalls_def linkwatcher_run_def newDiagnosticManager_def)
next
  case (snoc e events)
  have "linkWatcher (manager_run delay (events @ [e])) =
      foldl linkwatcher_step (linkWatcher (manager_run delay events)) (watcherCall e)"
    by (simp add: manager_run_def manager_step_linkWatcher)
  then show ?case
    by (simp add: snoc.IH linkwatcher_run_def watcherCalls_def)
qed

lemma wellKeyed_delete: "wellKeyed W \<Longrightarrow> wellKeyed (rm_delete W r)"
  unfolding rm_delete_def AList.delete_eq by (rule wellKeyed_filter)

lemma set_rm_set_subset: "set (rm_set m r v) \<subseteq> insert (toString r, r, v) (set m)"
  unfolding rm_set_def by (rule set_update_subset)

lemma docsKeyed_leave:
  assumes "docsKeyed e"
  shows "docsKeyed (e\<lparr>documents := rm_delete (documents e) d\<rparr>)"
proof -
  have "set (rm_delete (documents e) d) \<subseteq> set (documents e)"
    by (auto simp: rm_delete_def AList.delete_eq)
  then show ?thesis
    using assms unfolding docsKeyed_def by (auto simp: wellKeyed_delete)
qed

lemma docsKeyed_forget:
  assumes "\<forall>x \<in> set W. docsKeyed (snd (snd x))"
  shows "\<forall>x \<in> set (map (forgetDocument d) W). docsKeyed (snd (snd x))"
proof
  fix x assume "x \<in> set (map (forgetDocument d) W)"
  then obtain y where y: "y \<in> set W" "x = forgetDocument d y" by auto
  obtain k u e where ye: "y = (k, u, e)" by (cases y)
  from assms y(1) ye have "docsKeyed e" by auto
  from docsKeyed_leave[OF this, of d] show "docsKeyed (snd (snd x))"
    by (simp add: y(2) ye forgetDocument_def)
qed

lemma docsKeyed_join:
  assumes "docsKeyed e"
  shows "docsKeyed (e\<lparr>documents := rm_set (documents e) d d\<rparr>)"
proof -
  have "wellKeyed (rm_set (documents e) d d)"
    using assms by (simp add: docsKeyed_def wellKeyed_set)
  moreover have "\<forall>x \<in> set (rm_set (documents e) d d). snd (snd x) = fst (snd x)"
    using assms set_rm_set_subset[of "documents e" d d] unfolding docsKeyed_def by auto
  ultimately show ?thesis by (simp add: docsKeyed_def)
qed

lemma set_rm_modify_cases:
  "x \<in> set (rm_modify W p f) \<Longrightarrow> x \<in> set W \<or> (\<exists>k u v. (k, u, v) \<in> set W \<and> x = (k, u, f v))"
  by (auto simp: rm_modify_def split: if_splits)

lemma docsKeyed_watchLink:
  assumes "\<forall>x \<in> set (watchers w). docsKeyed (snd (snd x))"
  shows "\<forall>x \<in> set (watchers (watchLink d w p)). docsKeyed (snd (snd x))"
proof (cases "rm_get (watchers w) p")
  case None
  have new: "docsKeyed \<lparr>watcher = n, documents = rm_set [] d d\<rparr>" for n
    by (simp add: docsKeyed_def rm_set_def wellKeyed_def)
  show ?thesis
  proof
    fix x assume "x \<in> set (watchers (watchLink d w p))"
    then have "x \<in> insert (toString p, p, \<lparr>watcher = length (startedWatchers w), documents = rm_set [] d d\<rparr>)
        (set (watchers w))"
      using set_rm_set_subset[of "watchers w" p] by (auto simp: watchLink_watchers None)
    with assms new show "docsKeyed (snd (snd x))" by auto
  qed
next
  case (Some entry)
  show ?thesis
  proof
    fix x assume "x \<in> set (watchers (watchLink d w p))"
    then have "x \<in> set (rm_modify (watchers w) p (\<lambda>entry. entry\<lparr>documents := rm_set (documents entry) d d\<rparr>))"
      by (simp add: watchLink_watchers Some)
    from set_rm_modify_cases[OF this] show "docsKeyed (snd (snd x))"
    proof
      assume "x \<in> set (watchers w)"
      with assms show ?thesis by blast
    next
      assume "\<exists>k u v. (k, u, v) \<in> set (watchers w)
          \<and> x = (k, u, v\<lparr>documents := rm_set (documents v) d d\<rparr>)"
      then obtain k u v where v: "(k, u, v) \<in> set (watchers w)"
        and x: "x = (k, u, v\<lparr>documents := rm_set (documents v) d d\<rparr>)" by blast
      from assms v have "docsKeyed v" by auto
      from docsKeyed_join[OF this, of d] show ?thesis by (simp add: x)
    qed
  qed
qed

lemma docsKeyed_watchLinks:
  "\<forall>x \<in> set (watchers w). docsKeyed (snd (snd x)) \<Longrightarrow>
   \<forall>x \<in> set (watchers (foldl (watchLink d) w ps)). docsKeyed (snd (snd x))"
proof (induction ps arbitrary: w)
  case Nil
  then show ?case by simp
next
  case (Cons p ps)
  from Cons.IH[OF docsKeyed_watchLink[OF Cons.prems, of d p]] show ?case by simp
qed

lemma docsKeyed_update:
  assumes "\<forall>x \<in> set (watchers w). docsKeyed (snd (snd x))"
  shows "\<forall>x \<in> set (watchers (updateLinksForDocument d ls w)). docsKeyed (snd (snd x))"
proof -
  define w1 where "w1 = w\<lparr>watchers := map (forgetDocument d) (watchers w)\<rparr>"
  define w2 where "w2 = foldl (watchLink d) w1
        (new_Set (map (\<lambda>l. path (href l)) (filter (\<lambda>l. isInternal (href l)) ls)))"
  have 1: "\<forall>x \<in> set (watchers w1). docsKeyed (snd (snd x))"
    using docsKeyed_forget[OF assms] by (simp add: w1_def)
  have 2: "\<forall>x \<in> set (watchers w2). docsKeyed (snd (snd x))"
    unfolding w2_def by (rule docsKeyed_watchLinks[OF 1])
  have "updateLinksForDocument d ls w = foldl cleanUp w2 (watchers w2)"
    by (simp add: updateLinksForDocument_def Let_def w2_def w1_def)
  then show ?thesis using 2 by (simp add: cleanUp_watchers)
qed

lemma linkwatcher_run_docsKeyed:
  "\<forall>x \<in> set (watchers (linkwatcher_run calls)). docsKeyed (snd (snd x))"
proof (induction calls rule: rev_induct)
  case Nil
  show ?case by (simp add: linkwatcher_run_def newLinkWatcher_def)
next
  case (snoc call calls)
  show ?case
    using docsKeyed_update[OF snoc.IH]
    by (cases call) (simp_all add: linkwatcher_run_def deleteDocument_def)
qed

lemma docsKeyed_values:
  assumes "docsKeyed e"
  shows "map toString (rm_values (documents e)) = map fst (documents e)"
  using assms unfolding docsKeyed_def wellKeyed_def rm_values_def
  by (auto simp: comp_def)

lemma retriggers_map_filter:
  "foldl (retriggerIfOpen f tds) m ds =
     foldl (\<lambda>m doc. triggerDiagnostics (uri doc) m) m (List.map_filter (openMarkdownDocument f tds) ds)"
  by (induction ds arbitrary: m)
     (auto simp: retriggerIfOpen_def openMarkdownDocument_def List.map_filter_simps split: option.splits)

lemma triggers_pending:
  "set (pendingDiagnostics (foldl (\<lambda>m doc. triggerDiagnostics (uri doc) m) m docs)) =
     set (pendingDiagnostics m) \<union> uri ` set docs"
  by (induction docs arbitrary: m) (auto simp: triggerDiagnostics_fields set_set_add)

lemma getDiagnostics_links:
  "getDiagnostics host doc options token = Inr state \<Longrightarrow> resultLinks state = getAllLinks host doc"
  by (auto simp: getDiagnostics_def Let_def split: if_splits sum.splits)

lemma getDiagnostics_total:
  assumes "[] \<notin> set (ignoreLinks options)"
  shows "\<exists>state. getDiagnostics host doc options token = Inr state"
proof -
  from validateFileLinksPass_total[OF assms] obtain f
    where f: "validateFileLinksPass host options (getAllLinks host doc) token = Inr f" by blast
  from validateFragmentLinksPass_total[OF assms] obtain g
    where g: "validateFragmentLinksPass host doc options (getAllLinks host doc) token = Inr g" by blast
  show ?thesis by (simp add: getDiagnostics_def Let_def f g)
qed

lemma watchedLinks_cases:
  "watchedLinks getOptions host doc token =
     (if \<not> enabled (getOptions (uri doc)) then Some []
      else (case getDiagnostics host doc (getOptions (uri doc)) token of
              Inl e \<Rightarrow> None
            | Inr state \<Rightarrow>
                Some (if validateFileLinks (getOptions (uri doc)) = None then []
                      else getAllLinks host doc)))"
  using getDiagnostics_links[of host doc "getOptions (uri doc)" token]
  by (auto simp: watchedLinks_def recomputeDiagnosticState_def Let_def split: sum.splits)

lemma watchedLinks_total:
  assumes "[] \<notin> set (ignoreLinks (getOptions (uri doc)))"
  shows "watchedLinks getOptions host doc token =
     Some (if enabled (getOptions (uri doc)) \<and> validateFileLinks (getOptions (uri doc)) \<noteq> None
           then getAllLinks host doc else [])"
  using getDiagnostics_total[OF assms, of host doc token]
  by (auto simp: watchedLinks_cases)

lemma computed_fields:
  "linkWatcher (computed getOptions host tabGroups doc cts token m) =
     (case watchedLinks getOptions host doc token of
        Some links \<Rightarrow> updateLinksForDocument (uri doc) links (linkWatcher m)
      | None \<Rightarrow> linkWatcher m)"
  "pendingDiagnostics (computed getOptions host tabGroups doc cts token m) = pendingDiagnostics m"
  by (auto simp: computed_def watchedLinks_def Let_def split: sum.splits prod.splits)

lemma watcherCalls_snoc: "watcherCalls (events @ [e]) = watcherCalls events @ watcherCall e"
  by (simp add: watcherCalls_def)

lemma lastReported_computed:
  "lastReported (watcherCalls (events @ [Computed getOptions host tabGroups doc cts token])) =
     (if \<not> enabled (getOptions (uri doc))
      then (lastReported (watcherCalls events))(toString (uri doc) := {})
      else (case getDiagnostics host doc (getOptions (uri doc)) token of
              Inl e \<Rightarrow> lastReported (watcherCalls events)
            | Inr state \<Rightarrow>
                (lastReported (watcherCalls events))
                  (toString (uri doc) :=
                     if validateFileLinks (getOptions (uri doc)) = None then {}
                     else internalPaths (getAllLinks host doc))))"
  by (auto simp: watcherCalls_snoc watchedLinks_cases lastReported_snoc internalPaths_Nil
      split: sum.splits)

text \<open>
  Claim C4, as amended. Let \<open>m\<close> be a manager after any events, and let a watcher
  report that the file of a resource was created or deleted. The event
  \<open>onDidChangeLinkedToFile\<close> fires exactly when the internal links last reported for
  some document have the path of the resource; when it does not fire, the manager is
  unchanged. When it fires, it carries exactly the documents whose last reported
  internal links have that path, each once, and the manager calls \<open>triggerDiagnostics\<close>
  for each of them that is found among the open text documents and is a markdown file,
  with the resource of the open document: these resources join the pending set, and no
  other does. What is reported: nothing before a computation of the document has ended;
  when a computation of a document ends, its links if \<open>options.enabled\<close> is true and
  \<open>validateFileLinks\<close> is set, no link if \<open>enabled\<close> is false or \<open>validateFileLinks\<close> is
  undefined, and what was reported before if the computation throws; and no link once
  the document is closed.
\<close>

theorem linked_file_change_retriggers:
  assumes "m = manager_run delay events"
  shows "(onLinkedResourceChanged r (linkWatcher m) = None)
           = (\<forall>d. toString r \<notin> lastReported (watcherCalls events) d)
    \<and> (onLinkedResourceChanged r (linkWatcher m) = None \<longrightarrow>
          linkedFileChanged isMarkdownFile textDocuments r m = m)
    \<and> (\<forall>docs. onLinkedResourceChanged r (linkWatcher m) = Some docs \<longrightarrow>
          toString ` set docs = {d. toString r \<in> lastReported (watcherCalls events) d}
        \<and> distinct (map toString docs)
        \<and> linkedFileChanged isMarkdownFile textDocuments r m =
            foldl (\<lambda>m doc. triggerDiagnostics (uri doc) m) m
              (List.map_filter (openMarkdownDocument isMarkdownFile textDocuments) docs)
        \<and> set (pendingDiagnostics (linkedFileChanged isMarkdownFile textDocuments r m)) =
            set (pendingDiagnostics m)
            \<union> uri ` set (List.map_filter (openMarkdownDocument isMarkdownFile textDocuments) docs))
    \<and> lastReported (watcherCalls []) = (\<lambda>d. {})
    \<and> lastReported (watcherCalls (events @ [Computed getOptions host tabGroups doc cts token])) =
         (if \<not> enabled (getOptions (uri doc))
          then (lastReported (watcherCalls events))(toString (uri doc) := {})
          else (case getDiagnostics host doc (getOptions (uri doc)) token of
                  Inl e \<Rightarrow> lastReported (watcherCalls events)
                | Inr state \<Rightarrow>
                    (lastReported (watcherCalls events))
                      (toString (uri doc) :=
                         if validateFileLinks (getOptions (uri doc)) = None then {}
                         else internalPaths (getAllLinks host doc))))
    \<and> lastReported (watcherCalls (events @ [CloseTextDocument closed])) =
         (lastReported (watcherCalls events))(toString closed := {})
    \<and> lastReported (watcherCalls (events @ [TriggerDiagnostics triggered])) =
         lastReported (watcherCalls events)
    \<and> lastReported (watcherCalls (events @ [TimerFires getMarkdownDocument])) =
         lastReported (watcherCalls events)
    \<and> lastReported (watcherCalls (events @ [LinkedFileChanged isMarkdownFile textDocuments r])) =
         lastReported (watcherCalls events)
    \<and> lastReported (watcherCalls (events @ [Rebuild])) = lastReported (watcherCalls events)"
proof -
  define calls where "calls = watcherCalls events"
  define w where "w = linkwatcher_run calls"
  have lw: "linkWatcher m = w"
    unfolding assms w_def calls_def by (rule manager_run_linkWatcher)
  have wk: "wellKeyed (watchers w)"
    and docs: "\<And>q. docsOf (watchers w) q = {d. q \<in> lastReported calls d}"
    using linkwatcher_run_inv[of calls] by (simp_all add: w_def)
  have ne: "\<forall>x \<in> set (watchers w). nonEmpty x"
    unfolding w_def by (rule linkwatcher_run_nonEmpty)
  have dk: "\<forall>x \<in> set (watchers w). docsKeyed (snd (snd x))"
    unfolding w_def by (rule linkwatcher_run_docsKeyed)
  have keys: "rm_keyset (watchers w) = {q. docsOf (watchers w) q \<noteq> {}}"
    by (rule keyset_docsOf[OF wk ne])
  have a: "(onLinkedResourceChanged r w = None) = (\<forall>d. toString r \<notin> lastReported calls d)"
  proof -
    have "(onLinkedResourceChanged r w = None) = (toString r \<notin> rm_keyset (watchers w))"
      by (auto simp: onLinkedResourceChanged_def rm_get_def rm_keyset_def map_of_eq_None_iff
          split: option.splits dest!: map_of_SomeD intro: rev_image_eqI)
    then show ?thesis unfolding keys docs by auto
  qed
  have b: "onLinkedResourceChanged r w = None \<longrightarrow> linkedFileChanged isMarkdownFile textDocuments r m = m"
    by (simp add: linkedFileChanged_def lw)
  have c: "toString ` set docs = {d. toString r \<in> lastReported calls d}
        \<and> distinct (map toString docs)
        \<and> linkedFileChanged isMarkdownFile textDocuments r m =
            foldl (\<lambda>m doc. triggerDiagnostics (uri doc) m) m
              (List.map_filter (openMarkdownDocument isMarkdownFile textDocuments) docs)
        \<and> set (pendingDiagnostics (linkedFileChanged isMarkdownFile textDocuments r m)) =
            set (pendingDiagnostics m)
            \<union> uri ` set (List.map_filter (openMarkdownDocument isMarkdownFile textDocuments) docs)"
    if fired: "onLinkedResourceChanged r w = Some docs" for docs
  proof -
    from fired obtain u e where m: "map_of (watchers w) (toString r) = Some (u, e)"
      and ds: "docs = rm_values (documents e)"
      by (auto simp: onLinkedResourceChanged_def rm_get_def split: option.splits)
    from m have mem: "(toString r, u, e) \<in> set (watchers w)" by (simp add: wellKeyed_map_of[OF wk])
    with dk have ke: "docsKeyed e" by auto
    have names: "map toString docs = map fst (documents e)"
      unfolding ds by (rule docsKeyed_values[OF ke])
    have "set (map toString docs) = rm_keyset (documents e)"
      unfolding names by (simp add: rm_keyset_def)
    moreover have "docsOf (watchers w) (toString r) = rm_keyset (documents e)"
      using m by (simp add: docsOf_def)
    ultimately have 1: "toString ` set docs = {d. toString r \<in> lastReported calls d}"
      using docs[of "toString r"] by simp
    have 2: "distinct (map toString docs)"
      unfolding names using ke by (simp add: docsKeyed_def wellKeyed_def)
    have 3: "linkedFileChanged isMarkdownFile textDocuments r m =
            foldl (\<lambda>m doc. triggerDiagnostics (uri doc) m) m
              (List.map_filter (openMarkdownDocument isMarkdownFile textDocuments) docs)"
      using fired by (simp add: linkedFileChanged_def lw onDidChangeLinkedToFile_def retriggers_map_filter)
    show ?thesis unfolding 3 using 1 2 by (simp add: triggers_pending)
  qed
  have d: "lastReported (watcherCalls []) = (\<lambda>d. {})"
    "lastReported (watcherCalls (events @ [CloseTextDocument closed])) =
         (lastReported (watcherCalls events))(toString closed := {})"
    "lastReported (watcherCalls (events @ [TriggerDiagnostics triggered])) =
         lastReported (watcherCalls events)"
    "lastReported (watcherCalls (events @ [TimerFires getMarkdownDocument])) =
         lastReported (watcherCalls events)"
    "lastReported (watcherCalls (events @ [LinkedFileChanged isMarkdownFile textDocuments r])) =
         lastReported (watcherCalls events)"
    "lastReported (watcherCalls (events @ [Rebuild])) = lastReported (watcherCalls events)"
    by (simp_all add: watcherCalls_snoc lastReported_snoc) (simp add: watcherCalls_def lastReported_def)
  note e = lastReported_computed[of events getOptions host tabGroups doc cts token]
  from a b c have main: "(onLinkedResourceChanged r (linkWatcher m) = None)
           = (\<forall>d. toString r \<notin> lastReported (watcherCalls events) d)
    \<and> (onLinkedResourceChanged r (linkWatcher m) = None \<longrightarrow>
          linkedFileChanged isMarkdownFile textDocuments r m = m)
    \<and> (\<forall>docs. onLinkedResourceChanged r (linkWatcher m) = Some docs \<longrightarrow>
          toString ` set docs = {d. toString r \<in> lastReported (watcherCalls events) d}
        \<and> distinct (map toString docs)
        \<and> linkedFileChanged isMarkdownFile textDocuments r m =
            foldl (\<lambda>m doc. triggerDiagnostics (uri doc) m) m
              (List.map_filter (openMarkdownDocument isMarkdownFile textDocuments) docs)
        \<and> set (pendingDiagnostics (linkedFileChanged isMarkdownFile textDocuments r m)) =
            set (pendingDiagnostics m)
            \<union> uri ` set (List.map_filter (openMarkdownDocument isMarkdownFile textDocuments) docs))"
    unfolding lw calls_def by blast
  show ?thesis
    using main d e by - (intro conjI, blast+)
qed

theorem linked_file_change_retriggers_witness:
  "onLinkedResourceChanged (Uri 9 ''file:///b.md'')
      (linkWatcher (manager_run None
         [Computed (\<lambda>r. validating (Some LevelWarning))
            (emptyWorkspace\<lparr>getAllLinks := (\<lambda>doc. [linkToFile (Uri 2 ''file:///b.md'') ''b.md''])\<rparr>)
            [] \<lparr>uri = Uri 1 ''file:///a.md''\<rparr> 0 notCancelled]))
     = Some [Uri 1 ''file:///a.md'']
   \<and> pendingDiagnostics
       (linkedFileChanged languageIsMarkdown
          [\<lparr>uri = Uri 5 ''file:///a.md'', languageId = ''markdown''\<rparr>] (Uri 9 ''file:///b.md'')
          (manager_run None
             [Computed (\<lambda>r. validating (Some LevelWarning))
                (emptyWorkspace\<lparr>getAllLinks := (\<lambda>doc. [linkToFile (Uri 2 ''file:///b.md'') ''b.md''])\<rparr>)
                [] \<lparr>uri = Uri 1 ''file:///a.md''\<rparr> 0 notCancelled]))
     = [Uri 5 ''file:///a.md'']"
proof -
  have wl: "watchedLinks (\<lambda>r. validating (Some LevelWarning))
      (emptyWorkspace\<lparr>getAllLinks := (\<lambda>doc. [linkToFile (Uri 2 ''file:///b.md'') ''b.md''])\<rparr>)
      \<lparr>uri = Uri 1 ''file:///a.md''\<rparr> notCancelled = Some [linkToFile (Uri 2 ''file:///b.md'') ''b.md'']"
    by (subst watchedLinks_total) (simp_all add: validating_def)
  have lw: "linkWatcher (manager_run None
         [Computed (\<lambda>r. validating (Some LevelWarning))
            (emptyWorkspace\<lparr>getAllLinks := (\<lambda>doc. [linkToFile (Uri 2 ''file:///b.md'') ''b.md''])\<rparr>)
            [] \<lparr>uri = Uri 1 ''file:///a.md''\<rparr> 0 notCancelled]) =
      \<lparr>watchers = [(''file:///b.md'', Uri 2 ''file:///b.md'',
          \<lparr>watcher = 0, documents = [(''file:///a.md'', Uri 1 ''file:///a.md'', Uri 1 ''file:///a.md'')]\<rparr>)],
       startedWatchers = [Uri 2 ''file:///b.md''], disposedWatchers = []\<rparr>"
    unfolding manager_run_def foldl.simps manager_step.simps computed_fields wl
    by (simp add: newDiagnosticManager_def Let_def
        updateLinksForDocument_def newLinkWatcher_def linkToFile_def new_Set_def set_add_def
        watchLink_def startWatching_def cleanUp_def rm_get_def rm_set_def rm_size_def)
  have fired: "onLinkedResourceChanged (Uri 9 ''file:///b.md'')
      (linkWatcher (manager_run None
         [Computed (\<lambda>r. validating (Some LevelWarning))
            (emptyWorkspace\<lparr>getAllLinks := (\<lambda>doc. [linkToFile (Uri 2 ''file:///b.md'') ''b.md''])\<rparr>)
            [] \<lparr>uri = Uri 1 ''file:///a.md''\<rparr> 0 notCancelled]))
     = Some [Uri 1 ''file:///a.md'']"
    unfolding lw by (simp add: onLinkedResourceChanged_def rm_get_def rm_values_def)
  have pend: "pendingDiagnostics (manager_run None
         [Computed (\<lambda>r. validating (Some LevelWarning))
            (emptyWorkspace\<lparr>getAllLinks := (\<lambda>doc. [linkToFile (Uri 2 ''file:///b.md'') ''b.md''])\<rparr>)
            [] \<lparr>uri = Uri 1 ''file:///a.md''\<rparr> 0 notCancelled]) = []"
    unfolding manager_run_def foldl.simps manager_step.simps computed_fields
    by (simp add: newDiagnosticManager_def)
  from linked_file_change_retriggers[OF refl, of "Uri 9 ''file:///b.md''" None
        "[Computed (\<lambda>r. validating (Some LevelWarning))
            (emptyWorkspace\<lparr>getAllLinks := (\<lambda>doc. [linkToFile (Uri 2 ''file:///b.md'') ''b.md''])\<rparr>)
            [] \<lparr>uri = Uri 1 ''file:///a.md''\<rparr> 0 notCancelled]"
        languageIsMarkdown "[\<lparr>uri = Uri 5 ''file:///a.md'', languageId = ''markdown''\<rparr>]"]
  have "\<forall>docs. onLinkedResourceChanged (Uri 9 ''file:///b.md'')
      (linkWatcher (manager_run None
         [Computed (\<lambda>r. validating (Some LevelWarning))
            (emptyWorkspace\<lparr>getAllLinks := (\<lambda>doc. [linkToFile (Uri 2 ''file:///b.md'') ''b.md''])\<rparr>)
            [] \<lparr>uri = Uri 1 ''file:///a.md''\<rparr> 0 notCancelled])) = Some docs \<longrightarrow>
      linkedFileChanged languageIsMarkdown
          [\<lparr>uri = Uri 5 ''file:///a.md'', languageId = ''markdown''\<rparr>] (Uri 9 ''file:///b.md'')
          (manager_run None
             [Computed (\<lambda>r. validating (Some LevelWarning))
                (emptyWorkspace\<lparr>getAllLinks := (\<lambda>doc. [linkToFile (Uri 2 ''file:///b.md'') ''b.md''])\<rparr>)
                [] \<lparr>uri = Uri 1 ''file:///a.md''\<rparr> 0 notCancelled]) =
        foldl (\<lambda>m doc. triggerDiagnostics (uri doc) m)
          (manager_run None
             [Computed (\<lambda>r. validating (Some LevelWarning))
                (emptyWorkspace\<lparr>getAllLinks := (\<lambda>doc. [linkToFile (Uri 2 ''file:///b.md'') ''b.md''])\<rparr>)
                [] \<lparr>uri = Uri 1 ''file:///a.md''\<rparr> 0 notCancelled])
          (List.map_filter (openMarkdownDocument languageIsMarkdown
              [\<lparr>uri = Uri 5 ''file:///a.md'', languageId = ''markdown''\<rparr>]) docs)"
    by blast
  with fired have "linkedFileChanged languageIsMarkdown
          [\<lparr>uri = Uri 5 ''file:///a.md'', languageId = ''markdown''\<rparr>] (Uri 9 ''file:///b.md'')
          (manager_run None
             [Computed (\<lambda>r. validating (Some LevelWarning))
                (emptyWorkspace\<lparr>getAllLinks := (\<lambda>doc. [linkToFile (Uri 2 ''file:///b.md'') ''b.md''])\<rparr>)
                [] \<lparr>uri = Uri 1 ''file:///a.md''\<rparr> 0 notCancelled]) =
        foldl (\<lambda>m doc. triggerDiagnostics (uri doc) m)
          (manager_run None
             [Computed (\<lambda>r. validating (Some LevelWarning))
                (emptyWorkspace\<lparr>getAllLinks := (\<lambda>doc. [linkToFile (Uri 2 ''file:///b.md'') ''b.md''])\<rparr>)
                [] \<lparr>uri = Uri 1 ''file:///a.md''\<rparr> 0 notCancelled])
          (List.map_filter (openMarkdownDocument languageIsMarkdown
              [\<lparr>uri = Uri 5 ''file:///a.md'', languageId = ''markdown''\<rparr>]) [Uri 1 ''file:///a.md''])"
    by blast
  then show ?thesis
    using fired pend
    by (simp add: List.map_filter_simps openMarkdownDocument_def languageIsMarkdown_def
        triggerDiagnostics_fields set_add_def)
qed

text \<open>
  Claim C4 as stated fails for a document whose links are not reported to the link
  watcher. The document below has an internal link to a file. When its computation
  ends with \<open>validateFileLinks\<close> undefined, or has started and not ended, the link watcher
  watches nothing: a watcher's report for the file fires no event, and the manager
  triggers no diagnostics although the document is an open markdown document.
\<close>

theorem linked_file_change_not_reported:
  "getAllLinks (emptyWorkspace\<lparr>getAllLinks := (\<lambda>doc. [linkToFile (Uri 2 ''file:///b.md'') ''b.md''])\<rparr>)
      \<lparr>uri = Uri 1 ''file:///a.md''\<rparr> = [linkToFile (Uri 2 ''file:///b.md'') ''b.md'']
   \<and> href (linkToFile (Uri 2 ''file:///b.md'') ''b.md'') = InternalHref (Uri 2 ''file:///b.md'') []
   \<and> onLinkedResourceChanged (Uri 2 ''file:///b.md'')
        (linkWatcher (manager_run None
           [Computed (\<lambda>r. validating None)
              (emptyWorkspace\<lparr>getAllLinks := (\<lambda>doc. [linkToFile (Uri 2 ''file:///b.md'') ''b.md''])\<rparr>)
              [] \<lparr>uri = Uri 1 ''file:///a.md''\<rparr> 0 notCancelled])) = None
   \<and> pendingDiagnostics
        (linkedFileChanged languageIsMarkdown
           [\<lparr>uri = Uri 1 ''file:///a.md'', languageId = ''markdown''\<rparr>] (Uri 2 ''file:///b.md'')
           (manager_run None
              [Computed (\<lambda>r. validating None)
                 (emptyWorkspace\<lparr>getAllLinks := (\<lambda>doc. [linkToFile (Uri 2 ''file:///b.md'') ''b.md''])\<rparr>)
                 [] \<lparr>uri = Uri 1 ''file:///a.md''\<rparr> 0 notCancelled])) = []
   \<and> onLinkedResourceChanged (Uri 2 ''file:///b.md'')
        (linkWatcher (manager_run None
           [TriggerDiagnostics (Uri 1 ''file:///a.md''), TimerFires (workspaceOf [''file:///a.md''])]))
      = None
   \<and> pendingDiagnostics
        (linkedFileChanged languageIsMarkdown
           [\<lparr>uri = Uri 1 ''file:///a.md'', languageId = ''markdown''\<rparr>] (Uri 2 ''file:///b.md'')
           (manager_run None
              [TriggerDiagnostics (Uri 1 ''file:///a.md''), TimerFires (workspaceOf [''file:///a.md''])]))
      = []"
proof -
  have wl: "watchedLinks (\<lambda>r. validating None)
      (emptyWorkspace\<lparr>getAllLinks := (\<lambda>doc. [linkToFile (Uri 2 ''file:///b.md'') ''b.md''])\<rparr>)
      \<lparr>uri = Uri 1 ''file:///a.md''\<rparr> notCancelled = Some []"
    by (subst watchedLinks_total) (simp_all add: validating_def)
  have lw1: "linkWatcher (manager_run None
           [Computed (\<lambda>r. validating None)
              (emptyWorkspace\<lparr>getAllLinks := (\<lambda>doc. [linkToFile (Uri 2 ''file:///b.md'') ''b.md''])\<rparr>)
              [] \<lparr>uri = Uri 1 ''file:///a.md''\<rparr> 0 notCancelled]) = newLinkWatcher"
    unfolding manager_run_def foldl.simps manager_step.simps computed_fields wl
    by (simp add: newDiagnosticManager_def Let_def updateLinksForDocument_def newLinkWatcher_def
        new_Set_def)
  have p1: "pendingDiagnostics (manager_run None
           [Computed (\<lambda>r. validating None)
              (emptyWorkspace\<lparr>getAllLinks := (\<lambda>doc. [linkToFile (Uri 2 ''file:///b.md'') ''b.md''])\<rparr>)
              [] \<lparr>uri = Uri 1 ''file:///a.md''\<rparr> 0 notCancelled]) = []"
    unfolding manager_run_def foldl.simps manager_step.simps computed_fields
    by (simp add: newDiagnosticManager_def)
  have lw2: "linkWatcher (manager_run None
           [TriggerDiagnostics (Uri 1 ''file:///a.md''), TimerFires (workspaceOf [''file:///a.md''])])
      = newLinkWatcher"
    by (simp add: manager_run_def timerFired_linkWatcher triggerDiagnostics_fields
        newDiagnosticManager_def)
  have p2: "pendingDiagnostics (manager_run None
           [TriggerDiagnostics (Uri 1 ''file:///a.md''), TimerFires (workspaceOf [''file:///a.md''])])
      = []"
    by (simp add: manager_run_def timerFired_def delayer_timeout_def triggerDiagnostics_def
        delayer_trigger_def newDiagnosticManager_def newDelayer_def set_add_def Let_def
        recomputePendingDiagnostics_def recomputeResource_def workspaceOf_def
        split: prod.splits)
  have none: "onLinkedResourceChanged (Uri 2 ''file:///b.md'') newLinkWatcher = None"
    by (simp add: onLinkedResourceChanged_def newLinkWatcher_def rm_get_def)
  show ?thesis
    unfolding linkedFileChanged_def lw1 lw2 none option.simps p1 p2
    by (simp add: linkToFile_def)
qed

section \<open>Properties of the loader bundle\<close>

lemma sorted_by_four_keys:
  "sorted (map f ys) \<Longrightarrow> \<forall>y \<in> set ys. f y < (4::nat) \<Longrightarrow>
   ys = filter (\<lambda>y. f y = 0) ys @ filter (\<lambda>y. f y = 1) ys
      @ filter (\<lambda>y. f y = 2) ys @ filter (\<lambda>y. f y = 3) ys"
proof (induction ys)
  case Nil
  show ?case by simp
next
  case (Cons y ys)
  from Cons.prems have ge: "\<forall>z \<in> set ys. f y \<le> f z" and s: "sorted (map f ys)"
    and lt: "\<forall>z \<in> set ys. f z < 4" and y4: "f y < 4"
    by auto
  note IH = Cons.IH[OF s lt]
  from y4 consider "f y = 0" | "f y = 1" | "f y = 2" | "f y = 3" by linarith
  then show ?case
  proof cases
    case 1
    then show ?thesis using IH by simp
  next
    case 2
    with ge have "filter (\<lambda>y. f y = 0) ys = []" by (auto simp: filter_empty_conv)
    then show ?thesis using IH 2 by simp
  next
    case 3
    with ge have "filter (\<lambda>y. f y = 0) ys = []" "filter (\<lambda>y. f y = 1) ys = []"
      by (auto simp: filter_empty_conv)
    then show ?thesis using IH 3 by simp
  next
    case 4
    with ge have "filter (\<lambda>y. f y = 0) ys = []" "filter (\<lambda>y. f y = 1) ys = []"
      "filter (\<lambda>y. f y = 2) ys = []"
      by (auto simp: filter_empty_conv)
    then show ?thesis using IH 4 by simp
  qed
qed

lemma order_lt_4: "order f < 4"
  by (simp add: order_def)

lemma sort_key_order:
  "sort_key order files =
     filter (\<lambda>f. order f = 0) files @ filter (\<lambda>f. order f = 1) files
   @ filter (\<lambda>f. order f = 2) files @ filter (\<lambda>f. order f = 3) files"
  using sorted_by_four_keys[of order "sort_key order files"]
  by (simp add: order_lt_4 sort_key_stable)

text \<open>
  Claim C8. The files that the through-stream of \<open>loader\<close> emits, whatever files arrived
  and in whatever order, are: the file with the bundled file header; then the files
  whose path ends with loader.js; then those that end with css.js; then those that end
  with nls.js; then the remaining files; and last, when \<open>externalLoaderInfo\<close> is defined,
  the file with the \<open>require.config(...)\<close> fragment. The function \<open>order\<close> gives these
  files 0, 1, 2 and 3. The bundle, named vs/loader.js, is the concatenation of the
  contents of the files emitted, in this order.
\<close>

theorem loader_parts_in_order:
  "loader_end bundledFileHeader externalLoaderInfo stringify files =
     [\<lparr>vpath = ''fake'', vbase = ''.'', contents = bundledFileHeader\<rparr>]
     @ filter (\<lambda>f. order f = 0) files
     @ filter (\<lambda>f. order f = 1) files
     @ filter (\<lambda>f. order f = 2) files
     @ filter (\<lambda>f. order f = 3) files
     @ (case externalLoaderInfo of
          Some info \<Rightarrow> [\<lparr>vpath = ''fake2'', vbase = ''.'',
                         contents = ''require.config('' @ stringify info @ '');''\<rparr>]
        | None \<Rightarrow> [])
   \<and> loader bundledFileHeader externalLoaderInfo stringify newLine files =
       (''vs/loader.js'',
        join newLine (map contents (loader_end bundledFileHeader externalLoaderInfo stringify files)))
   \<and> (order f = 0) = endsWith (vpath f) ''loader.js''
   \<and> (order f = 1) = (\<not> endsWith (vpath f) ''loader.js'' \<and> endsWith (vpath f) ''css.js'')
   \<and> (order f = 2) = (\<not> endsWith (vpath f) ''loader.js'' \<and> \<not> endsWith (vpath f) ''css.js''
                      \<and> endsWith (vpath f) ''nls.js'')
   \<and> (order f = 3) = (\<not> endsWith (vpath f) ''loader.js'' \<and> \<not> endsWith (vpath f) ''css.js''
                      \<and> \<not> endsWith (vpath f) ''nls.js'')"
  by (simp add: loader_end_def Let_def sort_key_order loader_def concat_files_def order_def
      split: option.splits)

section \<open>Properties of the merge editor\<close>

text \<open>
  Claim C6. The grid of the merge editor holds three views: the first and second input
  views, which are input code-editor views numbered 1 and 2, and the result view,
  which is the result code-editor view. Whenever \<open>setInput\<close> is fulfilled, the input is a
  merge editor input that resolved to a model; the text model of the first input view is
  the model's \<open>input1\<close>, that of the second input view its \<open>input2\<close>, that of the result
  view its \<open>result\<close>; each view holds the model; and the views are of the kinds they were.
  \<open>setInput\<close> is fulfilled when \<open>super.setInput\<close> is and the input resolves.
\<close>

theorem merge_editor_three_panes:
  "gridViews createEditorControl = [Input1View, Input2View, InputResultView]
   \<and> map (\<lambda>p. kind (pane (newMergeEditor inputsWritable) p)) (gridViews createEditorControl) =
       [InputCodeEditorView 1, InputCodeEditorView 2, ResultCodeEditorView]
   \<and> (\<forall>e'. setInput superSetInput getUriLabel uriScheme inp e = Inr e' \<longrightarrow>
         (\<exists>m. inp = MergeEditorInput (Inr m)
            \<and> model e' = Some m
            \<and> editorModel (input1View e') = Some (input1 m)
            \<and> editorModel (input2View e') = Some (input2 m)
            \<and> editorModel (inputResultView e') = Some (result m)
            \<and> viewModel (input1View e') = Some m
            \<and> viewModel (input2View e') = Some m
            \<and> viewModel (inputResultView e') = Some m
            \<and> map (\<lambda>p. kind (pane e' p)) (gridViews createEditorControl) =
                map (\<lambda>p. kind (pane e p)) (gridViews createEditorControl)))
   \<and> (superSetInput = None \<longrightarrow>
         (\<exists>e'. setInput superSetInput getUriLabel uriScheme (MergeEditorInput (Inr m)) e = Inr e'))"
  by (auto simp: createEditorControl_def newMergeEditor_def newCodeEditorView_def setInput_def
      setModel_def split: EditorInput.splits option.splits sum.splits)

theorem merge_editor_three_panes_witness:
  "(case setInput None toString (take 4 \<circ> toString) (MergeEditorInput (Inr exampleMerge)) (newMergeEditor False) of
      Inl err \<Rightarrow> False
    | Inr e' \<Rightarrow>
        editorModel (input1View e') = Some (TextModel (Uri 1 ''git:/repo/f.txt?ours''))
      \<and> editorModel (input2View e') = Some (TextModel (Uri 2 ''git:/repo/f.txt?theirs''))
      \<and> editorModel (inputResultView e') = Some (TextModel (Uri 3 ''file:///repo/f.txt'')))"
proof -
  from merge_editor_three_panes[of False None toString "take 4 \<circ> toString" "MergeEditorInput (Inr exampleMerge)"
      "newMergeEditor False" exampleMerge]
  obtain e' where ok: "setInput None toString (take 4 \<circ> toString) (MergeEditorInput (Inr exampleMerge)) (newMergeEditor False) = Inr e'"
    by blast
  from merge_editor_three_panes[of False None toString "take 4 \<circ> toString" "MergeEditorInput (Inr exampleMerge)"
      "newMergeEditor False" exampleMerge] ok
  have "editorModel (input1View e') = Some (input1 exampleMerge)
      \<and> editorModel (input2View e') = Some (input2 exampleMerge)
      \<and> editorModel (inputResultView e') = Some (result exampleMerge)"
    by auto
  then show ?thesis unfolding ok by (simp add: exampleMerge_def)
qed

end
